theory Spec2Isabelle
  imports Complex_Main "HOL-Library.Log_Nat"
begin

section \<open>Python values\<close>

text \<open>
  The wrapper in \<^verbatim>\<open>gmail_api.py\<close> moves JSON-like dictionaries of the mail service into
  domain objects. A Python reference that may be \<^verbatim>\<open>None\<close> is an option; a string that may
  be \<^verbatim>\<open>None\<close> is \<open>py_str\<close>. Python integers are unbounded, so counters and limits are
  \<open>int\<close>.
\<close>

type_synonym py_str = "string option"

text \<open>Truthiness of an optional string (\<^verbatim>\<open>if s:\<close>): neither \<^verbatim>\<open>None\<close> nor empty.\<close>

definition truthy_str :: "py_str \<Rightarrow> bool" where
  "truthy_str s = (case s of None \<Rightarrow> False | Some t \<Rightarrow> t \<noteq> [])"

text \<open>Truthiness of an optional integer (\<^verbatim>\<open>if limit:\<close>): neither \<^verbatim>\<open>None\<close> nor zero.\<close>

definition truthy_int :: "int option \<Rightarrow> bool" where
  "truthy_int n = (case n of None \<Rightarrow> False | Some k \<Rightarrow> k \<noteq> 0)"

text \<open>Every raise of the source is a value of this type.\<close>

datatype error =
  TypeError | ValueError | IndexError | AttributeError | ZeroDivisionError | OverflowError
| OSError | ServiceError

section \<open>Progress\<close>

datatype ApiItemType = THREAD

record Progress =
  requests_count :: int
  all_items_count :: int
  processed_items :: int
  new_items_with_last_request :: int
  item_type :: ApiItemType
  limit :: "int option"

definition Progress_init :: "ApiItemType \<Rightarrow> int option \<Rightarrow> Progress" where
  "Progress_init it lmt =
     \<lparr>requests_count = 0, all_items_count = 0, processed_items = 0,
      new_items_with_last_request = - 1, item_type = it, limit = lmt\<rparr>"

definition incr_requests :: "Progress \<Rightarrow> Progress" where
  "incr_requests p = p\<lparr>requests_count := requests_count p + 1\<rparr>"

text \<open>The status line of \<^verbatim>\<open>register_new_items\<close> is an info log and leaves no state behind.\<close>

definition register_new_items :: "Progress \<Rightarrow> int \<Rightarrow> Progress" where
  "register_new_items p number_of_new_items =
     p\<lparr>all_items_count := all_items_count p + number_of_new_items,
       new_items_with_last_request := number_of_new_items\<rparr>"

definition incr_processed_items :: "Progress \<Rightarrow> Progress" where
  "incr_processed_items p = p\<lparr>processed_items := processed_items p + 1\<rparr>"

definition is_limit_reached :: "Progress \<Rightarrow> bool" where
  "is_limit_reached p =
     (if truthy_int (limit p) then
        (case limit p of None \<Rightarrow> False | Some l \<Rightarrow> processed_items p > l)
      else False)"

section \<open>Domain objects\<close>

text \<open>
  The classes of \<^verbatim>\<open>gmail_domain\<close> are plain data holders for the wrapper: a header is a
  name and a value, a body is the inline data, the size and the attachment id, a message part
  is a tree of parts. The raw records of the mail service have the same fields, each of them
  possibly missing from the dictionary.
\<close>

record Header =
  h_name :: py_str
  h_value :: py_str

record MessagePartBody =
  b_data :: py_str
  b_size :: "int option"
  b_attachmentId :: py_str

datatype MessagePart =
  MessagePart (mp_id: py_str) (mp_mimeType: py_str) (mp_headers: "Header list")
    (mp_body: MessagePartBody) (mp_parts: "MessagePart list")

text \<open>
  \<^verbatim>\<open>datetime.fromtimestamp\<close> gives a naive \<^verbatim>\<open>datetime\<close> in local time. Its calendar fields are
  kept as the seconds of the local wall clock since 1970-01-01 00:00:00, beside the
  microsecond; the flag that tells the two readings of a repeated hour apart is left out.
\<close>

record datetime =
  dt_local_seconds :: int
  dt_microsecond :: int

record Message =
  m_id :: py_str
  m_threadId :: py_str
  m_date :: datetime
  m_snippet :: py_str
  m_payload :: MessagePart
  m_subject :: py_str

record Thread =
  t_id :: py_str
  t_subject :: py_str
  t_messages :: "Message list"

record MessagePartDescriptor =
  d_message :: "Message option"
  d_message_part :: "MessagePart option"
  d_body :: MessagePartBody

record raw_header =
  rh_name :: py_str
  rh_value :: py_str

record raw_body =
  rb_data :: py_str
  rb_size :: "int option"
  rb_attachmentId :: py_str

datatype raw_part =
  RawPart (rp_partId: py_str) (rp_mimeType: py_str) (rp_headers: "raw_header list option")
    (rp_body: "raw_body option") (rp_parts: "raw_part list option")

record raw_message =
  rm_id :: py_str
  rm_threadId :: py_str
  rm_internalDate :: py_str
  rm_snippet :: py_str
  rm_payload :: "raw_part option"

record raw_thread =
  rt_id :: py_str
  rt_messages :: "raw_message list option"

record raw_thread_summary =
  ts_id :: py_str

text \<open>
  A list response is a dictionary. \<open>EmptyResponse\<close> is the falsy one (no key at all);
  \<open>Response ths\<close> is a dictionary with some key, \<open>ths\<close> being the value under
  \<^verbatim>\<open>threads\<close> when that key is there.
\<close>

datatype response = EmptyResponse | Response "raw_thread_summary list option"

section \<open>The conversion context\<close>

record ApiConversionContext =
  progress :: Progress
  decode_errors :: "MessagePartDescriptor list"
  empty_bodies :: "MessagePartDescriptor list"
  current_message :: "Message option"
  current_message_part :: "MessagePart option"

definition ApiConversionContext_init :: "ApiItemType \<Rightarrow> int option \<Rightarrow> ApiConversionContext" where
  "ApiConversionContext_init it lmt =
     \<lparr>progress = Progress_init it lmt, decode_errors = [], empty_bodies = [],
      current_message = None, current_message_part = None\<rparr>"

definition register_current_message :: "ApiConversionContext \<Rightarrow> Message \<Rightarrow> ApiConversionContext" where
  "register_current_message c message = c\<lparr>current_message := Some message\<rparr>"

definition register_current_message_part ::
  "ApiConversionContext \<Rightarrow> MessagePart \<Rightarrow> ApiConversionContext" where
  "register_current_message_part c message_part = c\<lparr>current_message_part := Some message_part\<rparr>"

definition report_decode_error :: "ApiConversionContext \<Rightarrow> MessagePartBody \<Rightarrow> ApiConversionContext" where
  "report_decode_error c gmail_msg_body_part =
     c\<lparr>decode_errors := decode_errors c @
        [\<lparr>d_message = current_message c, d_message_part = current_message_part c,
          d_body = gmail_msg_body_part\<rparr>]\<rparr>"

definition report_empty_body :: "ApiConversionContext \<Rightarrow> MessagePartBody \<Rightarrow> ApiConversionContext" where
  "report_empty_body c gmail_msg_body_part =
     c\<lparr>empty_bodies := empty_bodies c @
        [\<lparr>d_message = current_message c, d_message_part = current_message_part c,
          d_body = gmail_msg_body_part\<rparr>]\<rparr>"

definition handle_encoding_errors :: "ApiConversionContext \<Rightarrow> ApiConversionContext" where
  "handle_encoding_errors c = c\<lparr>decode_errors := []\<rparr>"

text \<open>
  \<^verbatim>\<open>handle_empty_bodies(func)\<close> calls \<^verbatim>\<open>func\<close> on each buffered descriptor and then clears
  the buffer. The handler acts on the world outside the context (for the orchestrator: the
  calls made to the attachment service and the log) and may raise; a raise leaves the loop
  before the buffer is cleared.
\<close>

fun for_each_descriptor ::
  "(MessagePartDescriptor \<Rightarrow> 'w \<Rightarrow> error + 'w) \<Rightarrow> MessagePartDescriptor list \<Rightarrow> 'w \<Rightarrow> error + 'w" where
  "for_each_descriptor func [] w = Inr w"
| "for_each_descriptor func (descriptor # ds) w =
     (case func descriptor w of
        Inl e \<Rightarrow> Inl e
      | Inr w' \<Rightarrow> for_each_descriptor func ds w')"

definition handle_empty_bodies ::
  "(MessagePartDescriptor \<Rightarrow> 'w \<Rightarrow> error + 'w) \<Rightarrow> ApiConversionContext \<Rightarrow> 'w
     \<Rightarrow> error + (ApiConversionContext \<times> 'w)" where
  "handle_empty_bodies func c w =
     (case for_each_descriptor func (empty_bodies c) w of
        Inl e \<Rightarrow> Inl e
      | Inr w' \<Rightarrow> Inr (c\<lparr>empty_bodies := []\<rparr>, w'))"

section \<open>Floats and time stamps\<close>

text \<open>
  A Python float is an IEEE double; a finite one is kept as the rational it denotes.
  \<open>double_of\<close> rounds a rational to the nearest double, ties to even: with \<open>e\<close> the
  binary exponent of the value, the result is the multiple of \<open>2 powi (e - 52)\<close> (of
  \<open>2 powi (- 1074)\<close> among the subnormals) next to it. True division of two integers gives
  the correctly rounded quotient and raises \<^verbatim>\<open>OverflowError\<close> when that is no finite double.
\<close>

definition round_half_even :: "rat \<Rightarrow> int" where
  "round_half_even x =
     (let f = \<lfloor>x\<rfloor>; d = x - of_int f
      in if d < 1 / 2 then f else if 1 / 2 < d then f + 1 else if even f then f else f + 1)"

definition floor_log2 :: "rat \<Rightarrow> int" where
  "floor_log2 x = (if 1 \<le> x then bitlen \<lfloor>x\<rfloor> - 1 else - bitlen (\<lceil>1 / x\<rceil> - 1))"

definition double_of :: "rat \<Rightarrow> rat" where
  "double_of x =
     (if x = 0 then 0
      else (let p = max (floor_log2 \<bar>x\<bar> - 52) (- 1074)
            in of_int (round_half_even (x / 2 powi p)) * 2 powi p))"

definition py_truediv :: "int \<Rightarrow> int \<Rightarrow> error + rat" where
  "py_truediv a b =
     (if b = 0 then Inl ZeroDivisionError
      else (let y = double_of (of_int a / of_int b)
            in if 2 ^ 1024 \<le> \<bar>y\<bar> then Inl OverflowError else Inr y))"

text \<open>
  \<^verbatim>\<open>fromtimestamp\<close> on a float first splits it into whole seconds and microseconds: the
  fraction left by \<^verbatim>\<open>modf\<close> is multiplied by \<^verbatim>\<open>1e6\<close> as a double and rounded to an integer,
  ties to even, and a result outside \<open>0 \<dots> 999999\<close> is carried into the seconds.
\<close>

definition split_timestamp :: "rat \<Rightarrow> int \<times> int" where
  "split_timestamp d =
     (let intpart = (if 0 \<le> d then \<lfloor>d\<rfloor> else \<lceil>d\<rceil>);
          floatpart = round_half_even (double_of ((d - of_int intpart) * 1000000))
      in if 1000000 \<le> floatpart then (intpart + 1, floatpart - 1000000)
         else if floatpart < 0 then (intpart - 1, floatpart + 1000000)
         else (intpart, floatpart))"

section \<open>The parser\<close>

text \<open>
  Modelled from the spec: \<^verbatim>\<open>GH.get_field(obj, field, default)\<close> of \<^verbatim>\<open>gmail_domain\<close>, which is
  not among the sources. It is the generic accessor that looks a field up by name and falls
  back to a silent default (\<^verbatim>\<open>None\<close> when none is given). The first argument here is the
  field as the record holds it.
\<close>

definition get_field :: "'a option \<Rightarrow> 'a option \<Rightarrow> 'a option" where
  "get_field field_of_obj default_val =
     (case field_of_obj of None \<Rightarrow> default_val | Some v \<Rightarrow> Some v)"

text \<open>
  \<^verbatim>\<open>int(s)\<close> on a string, base ten: blanks around the numeral are dropped, a sign may lead,
  and single underscores may separate digits. \<^verbatim>\<open>int(None)\<close> is a \<^verbatim>\<open>TypeError\<close>, a string
  that is no numeral a \<^verbatim>\<open>ValueError\<close>. The limit that recent interpreters put on the
  number of digits of such a string is left out.
\<close>

definition is_digit :: "char \<Rightarrow> bool" where
  "is_digit c = (48 \<le> (of_char c :: nat) \<and> (of_char c :: nat) \<le> 57)"

definition digit_val :: "char \<Rightarrow> int" where
  "digit_val c = int (of_char c) - 48"

definition is_py_space :: "char \<Rightarrow> bool" where
  "is_py_space c =
     (let n = (of_char c :: nat) in (9 \<le> n \<and> n \<le> 13) \<or> (28 \<le> n \<and> n \<le> 32))"

fun py_digits :: "int \<Rightarrow> string \<Rightarrow> int option" where
  "py_digits acc [] = Some acc"
| "py_digits acc (c # cs) =
     (if is_digit c then py_digits (acc * 10 + digit_val c) cs
      else if c = CHR ''_'' then
        (case cs of
           [] \<Rightarrow> None
         | d # ds \<Rightarrow> if is_digit d then py_digits (acc * 10 + digit_val d) ds else None)
      else None)"

definition py_numeral :: "string \<Rightarrow> int option" where
  "py_numeral s =
     (case s of [] \<Rightarrow> None | c # cs \<Rightarrow> if is_digit c then py_digits (digit_val c) cs else None)"

definition py_strip :: "string \<Rightarrow> string" where
  "py_strip s = dropWhile is_py_space (rev (dropWhile is_py_space (rev s)))"

definition py_int_of_string :: "string \<Rightarrow> int option" where
  "py_int_of_string s =
     (case py_strip s of
        [] \<Rightarrow> None
      | c # cs \<Rightarrow>
          if c = CHR ''-'' then map_option uminus (py_numeral cs)
          else if c = CHR ''+'' then py_numeral cs
          else py_numeral (c # cs))"

definition py_int :: "py_str \<Rightarrow> error + int" where
  "py_int v =
     (case v of
        None \<Rightarrow> Inl TypeError
      | Some s \<Rightarrow> (case py_int_of_string s of None \<Rightarrow> Inl ValueError | Some n \<Rightarrow> Inr n))"

text \<open>A list comprehension whose element expression may raise: the first raise wins.\<close>

fun collect :: "(error + 'a) list \<Rightarrow> error + 'a list" where
  "collect [] = Inr []"
| "collect (r # rs) =
     (case r of
        Inl e \<Rightarrow> Inl e
      | Inr x \<Rightarrow> (case collect rs of Inl e \<Rightarrow> Inl e | Inr xs \<Rightarrow> Inr (x # xs)))"

text \<open>
  \<^verbatim>\<open>_parse_headers\<close>: the header list is read with no default, so a part without headers
  makes the \<^verbatim>\<open>for\<close> loop iterate over \<^verbatim>\<open>None\<close>.
\<close>

definition parse_header :: "raw_header \<Rightarrow> Header" where
  "parse_header header_dict =
     \<lparr>h_name = get_field (rh_name header_dict) None, h_value = get_field (rh_value header_dict) None\<rparr>"

definition parse_headers :: "raw_header list option \<Rightarrow> error + Header list" where
  "parse_headers headers_field =
     (case get_field headers_field None of
        None \<Rightarrow> Inl TypeError
      | Some headers_list \<Rightarrow> Inr (map parse_header headers_list))"

text \<open>
  \<^verbatim>\<open>_parse_message_part_body_obj\<close> copies the three fields of the body record. A part with no
  body record at all hands \<^verbatim>\<open>None\<close> to the accessor; that lookup is taken to raise.
\<close>

definition parse_message_part_body_obj :: "raw_body option \<Rightarrow> error + MessagePartBody" where
  "parse_message_part_body_obj body_field =
     (case get_field body_field None of
        None \<Rightarrow> Inl TypeError
      | Some messagepart_body \<Rightarrow>
          Inr \<lparr>b_data = get_field (rb_data messagepart_body) None,
               b_size = get_field (rb_size messagepart_body) None,
               b_attachmentId = get_field (rb_attachmentId messagepart_body) None\<rparr>)"

definition child_parts :: "raw_part list option \<Rightarrow> raw_part list" where
  "child_parts parts_field = (case get_field parts_field (Some []) of None \<Rightarrow> [] | Some ps \<Rightarrow> ps)"

function parse_message_part :: "raw_part \<Rightarrow> py_str \<Rightarrow> error + MessagePart" where
  "parse_message_part (RawPart part_id mime_type headers_field body_field parts_field) message_id =
     (case parse_headers headers_field of
        Inl e \<Rightarrow> Inl e
      | Inr headers \<Rightarrow>
          (case parse_message_part_body_obj body_field of
             Inl e \<Rightarrow> Inl e
           | Inr body \<Rightarrow>
               (case collect (map (\<lambda>part. parse_message_part part message_id)
                                  (child_parts parts_field)) of
                  Inl e \<Rightarrow> Inl e
                | Inr parts \<Rightarrow>
                    Inr (MessagePart (get_field part_id None) (get_field mime_type None)
                           headers body parts))))"
  by pat_completeness auto
termination
proof (relation "measure (\<lambda>(p, m). size p)")
  show "wf (measure (\<lambda>(p, m). size p))" by simp
next
  fix part_id mime_type :: py_str and headers_field body_field parts_field
    and message_id :: py_str and x2 x2a and x :: raw_part
  assume "x \<in> set (child_parts parts_field)"
  then have "size x \<le> size_option (size_list size) parts_field"
    by (cases parts_field)
       (auto simp: child_parts_def get_field_def
             dest: size_list_estimation' [where f = size and y = "size x"])
  then show "((x, message_id),
              (RawPart part_id mime_type headers_field body_field parts_field, message_id))
             \<in> measure (\<lambda>(p, m). size p)"
    by simp
qed

section \<open>Collaborators\<close>

text \<open>
  The services and the fetching context live outside \<^verbatim>\<open>gmail_api.py\<close>; they are parameters.
  \<open>get_thread\<close> and \<open>get_attachment\<close> are the \<^verbatim>\<open>get(...).execute()\<close> calls of the thread
  and attachment services with the user id first, \<open>ids_to_query\<close> and \<open>process_thread\<close>
  are the two methods of the fetching context over its own state \<open>'o\<close>, \<open>subject_of\<close> is the
  subject that a \<^verbatim>\<open>Message\<close> object derives from its payload, and \<open>decodable\<close> says whether
  inline data decodes. \<open>localtime\<close> is the platform under \<^verbatim>\<open>datetime.fromtimestamp\<close>: it takes a
  second since the epoch to the seconds of the local wall clock, or to the error that Python
  raises for it (\<^verbatim>\<open>OverflowError\<close> outside the platform's \<^verbatim>\<open>time_t\<close>, \<^verbatim>\<open>OSError\<close> when the C
  function fails, \<^verbatim>\<open>ValueError\<close> when the year is outside 1 to 9999).
\<close>

record 'o env =
  get_thread :: "string \<Rightarrow> py_str \<Rightarrow> error + raw_thread"
  get_attachment :: "string \<Rightarrow> string \<Rightarrow> string \<Rightarrow> error + string"
  ids_to_query :: "'o \<Rightarrow> py_str list \<Rightarrow> bool \<Rightarrow> py_str list"
  process_thread :: "'o \<Rightarrow> raw_thread \<Rightarrow> Thread \<Rightarrow> 'o"
  subject_of :: "MessagePart \<Rightarrow> py_str"
  decodable :: "string \<Rightarrow> bool"
  localtime :: "int \<Rightarrow> error + int"

record list_kwargs =
  kw_userId :: string
  kw_q :: py_str
  kw_maxResults :: "int option"

text \<open>
  What a session leaves in the world: the calls it made to the services, in order, and its
  warning and error log lines. Info and debug lines are not recorded.
\<close>

datatype event =
  ListCall list_kwargs
| ListExecute
| ThreadGet string py_str
| AttachmentGet string string string
| LogWarning
| LogError

definition USERID_ME :: string where
  "USERID_ME = ''me''"

definition DEFAULT_PAGE_SIZE :: int where
  "DEFAULT_PAGE_SIZE = 100"

section \<open>Messages\<close>

text \<open>
  The two methods of the context that report an anomaly, and the two that set the current
  message and part, have no caller in \<^verbatim>\<open>gmail_api.py\<close>: they are called by the classes of
  \<^verbatim>\<open>gmail_domain\<close>, which are not among the sources. What those classes do with the context
  is taken from the specification of the message/part parser.
\<close>

text \<open>
  Modelled from the spec: the parts of the tree of a message, the part itself first and then
  the trees of its children from left to right.
\<close>

fun all_parts :: "MessagePart \<Rightarrow> MessagePart list" where
  "all_parts (MessagePart i m hs b ps) = MessagePart i m hs b ps # concat (map all_parts ps)"

text \<open>
  Modelled from the spec: the empty-body anomaly of \<^verbatim>\<open>gmail_domain\<close> (not among the
  sources), a part with neither inline data nor an attachment reference.
\<close>

definition has_empty_body :: "MessagePart \<Rightarrow> bool" where
  "has_empty_body p = (b_data (mp_body p) = None \<and> b_attachmentId (mp_body p) = None)"

text \<open>
  Modelled from the spec: the decode-error anomaly of \<^verbatim>\<open>gmail_domain\<close> (not among the
  sources), a part whose inline data cannot be decoded; the decoder is a parameter.
\<close>

definition has_undecodable_body :: "'o env \<Rightarrow> MessagePart \<Rightarrow> bool" where
  "has_undecodable_body env p =
     (case b_data (mp_body p) of None \<Rightarrow> False | Some d \<Rightarrow> \<not> decodable env d)"

text \<open>
  Modelled from the spec: the anomaly reporting of the message/part parser in
  \<^verbatim>\<open>gmail_domain\<close> (not among the sources). The part becomes the current part; an empty
  body or a decode error is reported through the conversion context against the current
  message and part; nothing is raised, so that parsing goes on.
\<close>

definition report_part :: "'o env \<Rightarrow> ApiConversionContext \<Rightarrow> MessagePart \<Rightarrow> ApiConversionContext" where
  "report_part env c p =
     (let c1 = register_current_message_part c p
      in if has_empty_body p then report_empty_body c1 (mp_body p)
         else if has_undecodable_body env p then report_decode_error c1 (mp_body p)
         else c1)"

text \<open>
  Modelled from the spec: the same reporting over the parts of a tree, one after the other.
\<close>

fun report_parts :: "'o env \<Rightarrow> ApiConversionContext \<Rightarrow> MessagePart list \<Rightarrow> ApiConversionContext" where
  "report_parts env c [] = c"
| "report_parts env c (p # ps) = report_parts env (report_part env c p) ps"

text \<open>
  Modelled from the spec: the constructor of \<^verbatim>\<open>Message\<close> in \<^verbatim>\<open>gmail_domain\<close>, which is not
  among the sources. The message holds its id, thread id, time stamp, snippet and root part;
  it becomes the current message of the context, and the parts of its tree are checked for
  anomalies in the order of the tree.
\<close>

definition Message_init ::
  "'o env \<Rightarrow> ApiConversionContext \<Rightarrow> py_str \<Rightarrow> py_str \<Rightarrow> datetime \<Rightarrow> py_str \<Rightarrow> MessagePart
     \<Rightarrow> Message \<times> ApiConversionContext" where
  "Message_init env c message_id thread_id date snippet payload =
     (let message = \<lparr>m_id = message_id, m_threadId = thread_id, m_date = date,
                      m_snippet = snippet, m_payload = payload,
                      m_subject = subject_of env payload\<rparr>
      in (message, report_parts env (register_current_message c message) (all_parts payload)))"

text \<open>
  \<^verbatim>\<open>datetime.fromtimestamp\<close>: the float is split into seconds and microseconds, and the
  platform turns the second into local time or raises.
\<close>

definition fromtimestamp :: "'o env \<Rightarrow> rat \<Rightarrow> error + datetime" where
  "fromtimestamp env d =
     (case split_timestamp d of
        (seconds, microsecond) \<Rightarrow>
          (case localtime env seconds of
             Inl e \<Rightarrow> Inl e
           | Inr local_seconds \<Rightarrow>
               Inr \<lparr>dt_local_seconds = local_seconds, dt_microsecond = microsecond\<rparr>))"

text \<open>
  The time stamp of a message, \<^verbatim>\<open>datetime.datetime.fromtimestamp(int(...) / 1000)\<close> once the
  integer has been read: the true division gives a float, which may overflow, and the
  conversion of that float may raise.
\<close>

definition message_date :: "'o env \<Rightarrow> int \<Rightarrow> error + datetime" where
  "message_date env millis =
     (case py_truediv millis 1000 of
        Inl e \<Rightarrow> Inl e
      | Inr seconds \<Rightarrow> fromtimestamp env seconds)"

text \<open>
  \<^verbatim>\<open>parse_api_message\<close>: the payload is parsed first, then the arguments of the constructor are
  evaluated in order, the time stamp being the only one of them that may raise. A message
  without payload hands \<^verbatim>\<open>None\<close> to the part parser, whose header loop raises.
\<close>

definition parse_api_message ::
  "'o env \<Rightarrow> ApiConversionContext \<Rightarrow> raw_message \<Rightarrow> error + (Message \<times> ApiConversionContext)" where
  "parse_api_message env c message =
     (case get_field (rm_payload message) None of
        None \<Rightarrow> Inl TypeError
      | Some message_part \<Rightarrow>
          (let message_id = get_field (rm_id message) None
           in case parse_message_part message_part message_id of
                Inl e \<Rightarrow> Inl e
              | Inr message_part_obj \<Rightarrow>
                  (case py_int (get_field (rm_internalDate message) None) of
                     Inl e \<Rightarrow> Inl e
                   | Inr millis \<Rightarrow>
                       (case message_date env millis of
                          Inl e \<Rightarrow> Inl e
                        | Inr date \<Rightarrow>
                            Inr (Message_init env c message_id
                                   (get_field (rm_threadId message) None)
                                   date
                                   (get_field (rm_snippet message) None)
                                   message_part_obj)))))"

fun parse_api_messages ::
  "'o env \<Rightarrow> ApiConversionContext \<Rightarrow> raw_message list
     \<Rightarrow> error + (Message list \<times> ApiConversionContext)" where
  "parse_api_messages env c [] = Inr ([], c)"
| "parse_api_messages env c (message # rest) =
     (case parse_api_message env c message of
        Inl e \<Rightarrow> Inl e
      | Inr (m, c1) \<Rightarrow>
          (case parse_api_messages env c1 rest of
             Inl e \<Rightarrow> Inl e
           | Inr (ms, c2) \<Rightarrow> Inr (m # ms, c2)))"

section \<open>The orchestrator\<close>

record 'o session =
  ctx :: ApiConversionContext
  threads :: "Thread list"
  api_fetching_ctx :: 'o
  trace :: "event list"

definition query_thread_data :: "'o env \<Rightarrow> py_str \<Rightarrow> event list \<Rightarrow> error + (raw_thread \<times> event list)" where
  "query_thread_data env thread_id tr =
     (case get_thread env USERID_ME thread_id of
        Inl e \<Rightarrow> Inl e
      | Inr tdata \<Rightarrow> Inr (tdata, tr @ [ThreadGet USERID_ME thread_id]))"

definition query_attachment ::
  "'o env \<Rightarrow> string \<Rightarrow> string \<Rightarrow> event list \<Rightarrow> error + event list" where
  "query_attachment env message_id attachment_id tr =
     (case get_attachment env USERID_ME message_id attachment_id of
        Inl e \<Rightarrow> Inl e
      | Inr attachment_data \<Rightarrow> Inr (tr @ [AttachmentGet USERID_ME message_id attachment_id]))"

text \<open>
  \<^verbatim>\<open>_query_attachment_of_descriptor\<close> reads \<^verbatim>\<open>descriptor.message.id\<close> and
  \<^verbatim>\<open>descriptor.message_part.body.attachmentId\<close>; on a descriptor without message or part
  the attribute access raises. The attachment it receives is dropped.
\<close>

definition query_attachment_of_descriptor ::
  "'o env \<Rightarrow> MessagePartDescriptor \<Rightarrow> event list \<Rightarrow> error + event list" where
  "query_attachment_of_descriptor env descriptor tr =
     (case d_message descriptor of
        None \<Rightarrow> Inl AttributeError
      | Some message \<Rightarrow>
          (case d_message_part descriptor of
             None \<Rightarrow> Inl AttributeError
           | Some message_part \<Rightarrow>
               (let message_id = m_id message;
                    attachment_id = b_attachmentId (mp_body message_part)
                in if \<not> truthy_str message_id \<or> \<not> truthy_str attachment_id
                   then Inr (tr @ [LogError])
                   else query_attachment env (the message_id) (the attachment_id) tr)))"

definition sanity_check_thread :: "Thread \<Rightarrow> unit" where
  "sanity_check_thread thread = ()"

text \<open>
  The body of the \<^verbatim>\<open>for\<close> loop after the limit check: fetch the thread, parse its messages,
  drain the empty bodies through the attachment fetch, build the thread from
  \<^verbatim>\<open>messages[0].subject\<close>, add it, and tell the fetching context.
\<close>

definition fetch_thread :: "'o env \<Rightarrow> bool \<Rightarrow> 'o session \<Rightarrow> py_str \<Rightarrow> error + 'o session" where
  "fetch_thread env sanity_check st thread_id =
     (case query_thread_data env thread_id (trace st) of
        Inl e \<Rightarrow> Inl e
      | Inr (thread_response, tr1) \<Rightarrow>
          (case get_field (rt_messages thread_response) None of
             None \<Rightarrow> Inl TypeError
           | Some messages_response \<Rightarrow>
               (case parse_api_messages env (ctx st) messages_response of
                  Inl e \<Rightarrow> Inl e
                | Inr (messages, c1) \<Rightarrow>
                    (case handle_empty_bodies (query_attachment_of_descriptor env) c1 tr1 of
                       Inl e \<Rightarrow> Inl e
                     | Inr (c2, tr2) \<Rightarrow>
                         (case messages of
                            [] \<Rightarrow> Inl IndexError
                          | first_message # _ \<Rightarrow>
                              (let thread_obj = \<lparr>t_id = thread_id,
                                                 t_subject = m_subject first_message,
                                                 t_messages = messages\<rparr>;
                                   u = (if sanity_check then sanity_check_thread thread_obj else ())
                               in Inr (st\<lparr>ctx := c2,
                                         threads := threads st @ [thread_obj],
                                         api_fetching_ctx :=
                                           process_thread env (api_fetching_ctx st)
                                             thread_response thread_obj,
                                         trace := tr2\<rparr>)))))))"

text \<open>
  The \<^verbatim>\<open>for\<close> loop over the ids to query. The flag of the result says whether the loop left
  through the \<^verbatim>\<open>return\<close> of the limit check.
\<close>

fun process_thread_ids ::
  "'o env \<Rightarrow> bool \<Rightarrow> 'o session \<Rightarrow> py_str list \<Rightarrow> error + (bool \<times> 'o session)" where
  "process_thread_ids env sanity_check st [] = Inr (False, st)"
| "process_thread_ids env sanity_check st (thread_id # rest) =
     (let st1 = st\<lparr>ctx := (ctx st)\<lparr>progress := incr_processed_items (progress (ctx st))\<rparr>\<rparr>
      in if is_limit_reached (progress (ctx st1))
         then Inr (True, st1\<lparr>trace := trace st1 @ [LogWarning]\<rparr>)
         else (case fetch_thread env sanity_check st1 thread_id of
                 Inl e \<Rightarrow> Inl e
               | Inr st2 \<Rightarrow> process_thread_ids env sanity_check st2 rest))"

definition response_truthy :: "response \<Rightarrow> bool" where
  "response_truthy r = (case r of EmptyResponse \<Rightarrow> False | Response ths \<Rightarrow> True)"

definition list_of_threads :: "response \<Rightarrow> raw_thread_summary list" where
  "list_of_threads r =
     (case r of
        EmptyResponse \<Rightarrow> []
      | Response ths \<Rightarrow> (case get_field ths (Some []) of None \<Rightarrow> [] | Some l \<Rightarrow> l))"

definition thread_ids :: "response \<Rightarrow> py_str list" where
  "thread_ids r = map (\<lambda>t. get_field (ts_id t) None) (list_of_threads r)"

text \<open>
  The \<^verbatim>\<open>while request is not None\<close> loop. The list service is the sequence of what its
  requests return when executed, the first request being the one built before the loop;
  \<^verbatim>\<open>list_next\<close> gives the request of the next element, and \<^verbatim>\<open>None\<close> after the last.
\<close>

fun paging_loop ::
  "'o env \<Rightarrow> bool \<Rightarrow> bool \<Rightarrow> 'o session \<Rightarrow> (error + response) list
     \<Rightarrow> error + (bool \<times> 'o session)" where
  "paging_loop env sanity_check expect_one st [] = Inr (False, st)"
| "paging_loop env sanity_check expect_one st (page # pages) =
     (case page of
        Inl e \<Rightarrow> Inl e
      | Inr response \<Rightarrow>
          (let st0 = st\<lparr>trace := trace st @ [ListExecute]\<rparr>
           in if response_truthy response then
                (let p1 = incr_requests (progress (ctx st0));
                     p2 = register_new_items p1 (int (length (list_of_threads response)));
                     st1 = st0\<lparr>ctx := (ctx st0)\<lparr>progress := p2\<rparr>\<rparr>;
                     thread_ids_to_query =
                       ids_to_query env (api_fetching_ctx st1) (thread_ids response) expect_one
                 in case process_thread_ids env sanity_check st1 thread_ids_to_query of
                      Inl e \<Rightarrow> Inl e
                    | Inr (returned, st2) \<Rightarrow>
                        if returned then Inr (True, st2)
                        else paging_loop env sanity_check expect_one st2 pages)
              else paging_loop env sanity_check expect_one st0 pages))"

definition list_request_kwargs :: "py_str \<Rightarrow> int option \<Rightarrow> list_kwargs" where
  "list_request_kwargs query lmt =
     \<lparr>kw_userId = USERID_ME,
      kw_q = (if truthy_str query then query else None),
      kw_maxResults =
        (if truthy_int lmt \<and> (case lmt of None \<Rightarrow> False | Some l \<Rightarrow> l < DEFAULT_PAGE_SIZE)
         then lmt else None)\<rparr>"

text \<open>
  \<^verbatim>\<open>query_threads_with_paging\<close>, with the state of the fetching context at the call, the
  response of the first list request and those of the following ones. It returns the
  collection of threads; the session, whose context the module keeps in
  \<^verbatim>\<open>CONVERSION_CONTEXT\<close>, is returned beside it.
\<close>

definition query_threads_with_paging ::
  "'o env \<Rightarrow> py_str \<Rightarrow> int option \<Rightarrow> bool \<Rightarrow> bool \<Rightarrow> 'o \<Rightarrow> error + response
     \<Rightarrow> (error + response) list \<Rightarrow> error + (Thread list \<times> 'o session)" where
  "query_threads_with_paging env query lmt sanity_check expect_one fetching first_page next_pages =
     (let st = \<lparr>ctx = ApiConversionContext_init THREAD lmt, threads = [],
                 api_fetching_ctx = fetching,
                 trace = [ListCall (list_request_kwargs query lmt)]\<rparr>
      in case paging_loop env sanity_check expect_one st (first_page # next_pages) of
           Inl e \<Rightarrow> Inl e
         | Inr (returned, st1) \<Rightarrow>
             if returned then Inr (threads st1, st1)
             else (let st2 = st1\<lparr>ctx := handle_encoding_errors (ctx st1)\<rparr>
                   in Inr (threads st2, st2)))"

section \<open>Sample inputs\<close>

definition sample_descriptor :: "int \<Rightarrow> MessagePartDescriptor" where
  "sample_descriptor n =
     \<lparr>d_message = None, d_message_part = None,
      d_body = \<lparr>b_data = None, b_size = Some n, b_attachmentId = None\<rparr>\<rparr>"

definition sample_ctx :: ApiConversionContext where
  "sample_ctx =
     (ApiConversionContext_init THREAD None)
       \<lparr>empty_bodies := [sample_descriptor 1, sample_descriptor 2]\<rparr>"

definition sample_body :: MessagePartBody where
  "sample_body = \<lparr>b_data = None, b_size = Some 0, b_attachmentId = None\<rparr>"

definition sample_part :: MessagePart where
  "sample_part = MessagePart (Some ''0'') (Some ''text/plain'') [] sample_body []"

definition sample_attachment_part :: MessagePart where
  "sample_attachment_part =
     MessagePart (Some ''1'') (Some ''application/pdf'') []
       \<lparr>b_data = None, b_size = Some 1024, b_attachmentId = Some ''att1''\<rparr> []"

definition sample_message :: Message where
  "sample_message =
     \<lparr>m_id = Some ''m1'', m_threadId = Some ''t1'', m_date = \<lparr>dt_local_seconds = 1, dt_microsecond = 500000\<rparr>,
      m_snippet = None,
      m_payload = sample_part, m_subject = Some ''hello''\<rparr>"

definition sample_env :: "unit env" where
  "sample_env =
     \<lparr>get_thread = (\<lambda>u t. Inl ServiceError),
      get_attachment = (\<lambda>u m a. Inr ''data''),
      ids_to_query = (\<lambda>s ids b. ids),
      process_thread = (\<lambda>s r t. s),
      subject_of = (\<lambda>p. Some ''hello''),
      decodable = (\<lambda>d. True),
      localtime = (\<lambda>t. if - 62135596800 \<le> t \<and> t < 253402300800 then Inr t else Inl ValueError)\<rparr>"

section \<open>Shape and re-serialisation of part trees\<close>

text \<open>
  The shape of a tree of parts forgets the fields and keeps the branching at every node;
  it is the same type for raw and for parsed trees, so that the two can be compared.
  Re-serialising a parsed part writes its fields back into a raw record, a part without
  children having no \<^verbatim>\<open>parts\<close> key, as the mail service sends it. A raw tree can be
  parsed when every part of it has headers and a body; it is well formed when, moreover, no
  part carries an empty \<^verbatim>\<open>parts\<close> list.
\<close>

datatype shape = Shape "shape list"

fun shape_depth :: "shape \<Rightarrow> nat" where
  "shape_depth (Shape cs) = Suc (fold max (map shape_depth cs) 0)"

fun part_shape :: "MessagePart \<Rightarrow> shape" where
  "part_shape (MessagePart i m hs b ps) = Shape (map part_shape ps)"

fun raw_shape :: "raw_part \<Rightarrow> shape" where
  "raw_shape (RawPart i m hs b None) = Shape []"
| "raw_shape (RawPart i m hs b (Some ps)) = Shape (map raw_shape ps)"

fun all_raw_parts :: "raw_part \<Rightarrow> raw_part list" where
  "all_raw_parts (RawPart i m hs b None) = [RawPart i m hs b None]"
| "all_raw_parts (RawPart i m hs b (Some ps)) = RawPart i m hs b (Some ps) # concat (map all_raw_parts ps)"

fun parsable_part :: "raw_part \<Rightarrow> bool" where
  "parsable_part (RawPart i m hs b None) = (hs \<noteq> None \<and> b \<noteq> None)"
| "parsable_part (RawPart i m hs b (Some ps)) = (hs \<noteq> None \<and> b \<noteq> None \<and> list_all parsable_part ps)"

fun well_formed_part :: "raw_part \<Rightarrow> bool" where
  "well_formed_part (RawPart i m hs b None) = (hs \<noteq> None \<and> b \<noteq> None)"
| "well_formed_part (RawPart i m hs b (Some ps)) = (hs \<noteq> None \<and> b \<noteq> None \<and> ps \<noteq> [] \<and> list_all well_formed_part ps)"

definition serialize_header :: "Header \<Rightarrow> raw_header" where
  "serialize_header h = \<lparr>rh_name = h_name h, rh_value = h_value h\<rparr>"

definition serialize_body :: "MessagePartBody \<Rightarrow> raw_body" where
  "serialize_body b = \<lparr>rb_data = b_data b, rb_size = b_size b, rb_attachmentId = b_attachmentId b\<rparr>"

fun serialize_part :: "MessagePart \<Rightarrow> raw_part" where
  "serialize_part (MessagePart i m hs b ps) =
     RawPart i m (Some (map serialize_header hs)) (Some (serialize_body b))
       (if ps = [] then None else Some (map serialize_part ps))"

definition sample_raw_part :: raw_part where
  "sample_raw_part =
     RawPart (Some ''0'') (Some ''multipart/mixed'')
       (Some [\<lparr>rh_name = Some ''Subject'', rh_value = Some ''hello''\<rparr>])
       (Some \<lparr>rb_data = None, rb_size = Some 0, rb_attachmentId = None\<rparr>)
       (Some [RawPart (Some ''0.1'') (Some ''text/plain'') (Some [])
                (Some \<lparr>rb_data = Some ''aGk='', rb_size = Some 2, rb_attachmentId = None\<rparr>)
                None])"

definition descriptor_of :: "Message option \<Rightarrow> MessagePart \<Rightarrow> MessagePartDescriptor" where
  "descriptor_of m p = \<lparr>d_message = m, d_message_part = Some p, d_body = mp_body p\<rparr>"

definition raw_has_empty_body :: "raw_part \<Rightarrow> bool" where
  "raw_has_empty_body r =
     (case rp_body r of None \<Rightarrow> False | Some b \<Rightarrow> rb_data b = None \<and> rb_attachmentId b = None)"

definition sample_raw_message :: raw_message where
  "sample_raw_message =
     \<lparr>rm_id = Some ''m1'', rm_threadId = Some ''t1'', rm_internalDate = Some ''1600000000500'',
      rm_snippet = Some ''hi'', rm_payload = Some sample_raw_part\<rparr>"

definition sample_parsed_part :: MessagePart where
  "sample_parsed_part =
     MessagePart (Some ''0'') (Some ''multipart/mixed'')
       [\<lparr>h_name = Some ''Subject'', h_value = Some ''hello''\<rparr>]
       \<lparr>b_data = None, b_size = Some 0, b_attachmentId = None\<rparr>
       [MessagePart (Some ''0.1'') (Some ''text/plain'') []
          \<lparr>b_data = Some ''aGk='', b_size = Some 2, b_attachmentId = None\<rparr> []]"

section \<open>Observations on a session\<close>

text \<open>
  What the properties of the orchestrator are stated with: the ids handed to the thread
  service and the number of executed list requests, read off the trace; the decode errors
  that the messages of a thread give rise to; the session before the first list request is
  executed, and the session after a page has been registered; and the relation between the
  session before and after a stretch of the loops that has retained the threads \<open>ths\<close>
  and left the events \<open>evs\<close>, the flag saying whether the limit check has returned.
\<close>

fun fetched_ids :: "event list \<Rightarrow> py_str list" where
  "fetched_ids [] = []"
| "fetched_ids (ThreadGet u t # es) = t # fetched_ids es"
| "fetched_ids (e # es) = fetched_ids es"

definition list_executes :: "event list \<Rightarrow> nat" where
  "list_executes tr = length (filter (\<lambda>e. e = ListExecute) tr)"

definition message_decode_errors :: "'o env \<Rightarrow> Message \<Rightarrow> MessagePartDescriptor list" where
  "message_decode_errors env m =
     map (descriptor_of (Some m)) (filter (has_undecodable_body env) (all_parts (m_payload m)))"

definition thread_decode_errors :: "'o env \<Rightarrow> Thread \<Rightarrow> MessagePartDescriptor list" where
  "thread_decode_errors env th = concat (map (message_decode_errors env) (t_messages th))"

definition initial_session :: "py_str \<Rightarrow> int option \<Rightarrow> 'o \<Rightarrow> 'o session" where
  "initial_session query lmt fetching =
     \<lparr>ctx = ApiConversionContext_init THREAD lmt, threads = [], api_fetching_ctx = fetching,
      trace = [ListCall (list_request_kwargs query lmt)]\<rparr>"

definition page_state :: "'o session \<Rightarrow> response \<Rightarrow> 'o session" where
  "page_state st response =
     (let st0 = st\<lparr>trace := trace st @ [ListExecute]\<rparr>
      in st0\<lparr>ctx := (ctx st0)\<lparr>progress :=
           register_new_items (incr_requests (progress (ctx st0)))
             (int (length (list_of_threads response)))\<rparr>\<rparr>)"

definition advanced ::
  "'o env \<Rightarrow> 'o session \<Rightarrow> bool \<Rightarrow> 'o session \<Rightarrow> Thread list \<Rightarrow> event list \<Rightarrow> bool" where
  "advanced env st returned st' ths evs \<longleftrightarrow>
     threads st' = threads st @ ths \<and>
     limit (progress (ctx st')) = limit (progress (ctx st)) \<and>
     processed_items (progress (ctx st')) =
       processed_items (progress (ctx st)) + int (length ths) + (if returned then 1 else 0) \<and>
     decode_errors (ctx st') = decode_errors (ctx st) @ concat (map (thread_decode_errors env) ths) \<and>
     trace st' = trace st @ evs \<and>
     fetched_ids evs = map t_id ths \<and>
     (LogWarning \<in> set evs) = returned \<and>
     (returned \<longrightarrow> is_limit_reached (progress (ctx st'))) \<and>
     (\<not> is_limit_reached (progress (ctx st)) \<longrightarrow>
        \<not> is_limit_reached ((progress (ctx st))
             \<lparr>processed_items := processed_items (progress (ctx st)) + int (length ths)\<rparr>))"


definition sample_thread_env :: "unit env" where
  "sample_thread_env =
     \<lparr>get_thread = (\<lambda>u t. Inr \<lparr>rt_id = t, rt_messages = Some [sample_raw_message]\<rparr>),
      get_attachment = (\<lambda>u m a. Inr ''data''),
      ids_to_query = (\<lambda>s ids b. ids),
      process_thread = (\<lambda>s r t. s),
      subject_of = (\<lambda>p. Some ''hello''),
      decodable = (\<lambda>d. False),
      localtime = (\<lambda>t. if - 62135596800 \<le> t \<and> t < 253402300800 then Inr t else Inl ValueError)\<rparr>"

definition sample_page :: response where
  "sample_page = Response (Some [\<lparr>ts_id = Some ''a''\<rparr>, \<lparr>ts_id = Some ''b''\<rparr>, \<lparr>ts_id = Some ''c''\<rparr>])"

definition succeeded :: "error + 'a \<Rightarrow> bool" where
  "succeeded r = (case r of Inl e \<Rightarrow> False | Inr x \<Rightarrow> True)"

definition session_counts :: "error + (Thread list \<times> 'o session) \<Rightarrow> (nat \<times> int) option" where
  "session_counts r =
     (case r of Inl e \<Rightarrow> None
      | Inr (ths, st) \<Rightarrow> Some (length ths, processed_items (progress (ctx st))))"

definition session_warned :: "error + (Thread list \<times> 'o session) \<Rightarrow> (bool \<times> nat) option" where
  "session_warned r =
     (case r of Inl e \<Rightarrow> None
      | Inr (ths, st) \<Rightarrow> Some (LogWarning \<in> set (trace st), length (decode_errors (ctx st))))"

definition sample_empty_env :: "unit env" where
  "sample_empty_env =
     \<lparr>get_thread = (\<lambda>u t. Inr \<lparr>rt_id = t, rt_messages = Some []\<rparr>),
      get_attachment = (\<lambda>u m a. Inr ''data''),
      ids_to_query = (\<lambda>s ids b. ids),
      process_thread = (\<lambda>s r t. s),
      subject_of = (\<lambda>p. Some ''hello''),
      decodable = (\<lambda>d. True),
      localtime = (\<lambda>t. if - 62135596800 \<le> t \<and> t < 253402300800 then Inr t else Inl ValueError)\<rparr>"

section \<open>Draining the empty bodies\<close>

lemma for_each_descriptor_total:
  assumes "\<And>d w. func d w = Inr (g d w)"
  shows "for_each_descriptor func ds w = Inr (foldl (\<lambda>w d. g d w) w ds)"
  by (induction ds arbitrary: w) (simp_all add: assms)

text \<open>
  C8. For every buffer and every handler that returns (its effect on the world being
  \<open>g\<close>), \<open>handle_empty_bodies\<close> applies the handler to the buffered descriptors one after
  the other, first recorded first, each once, and leaves the buffer empty.
\<close>

theorem handle_empty_bodies_drains_in_order:
  assumes "\<And>d w. func d w = Inr (g d w)"
  shows "handle_empty_bodies func c w =
           Inr (c\<lparr>empty_bodies := []\<rparr>, foldl (\<lambda>w d. g d w) w (empty_bodies c))"
  by (simp add: handle_empty_bodies_def for_each_descriptor_total [of func g, OF assms])

theorem handle_empty_bodies_drains_in_order_witness:
  "handle_empty_bodies (\<lambda>d w. Inr (w @ [d])) sample_ctx [] =
     Inr (sample_ctx\<lparr>empty_bodies := []\<rparr>, [sample_descriptor 1, sample_descriptor 2])"
  using handle_empty_bodies_drains_in_order
          [of "\<lambda>d w. Inr (w @ [d])" "\<lambda>d w. w @ [d]" sample_ctx "[]"]
  by (simp add: sample_ctx_def)

section \<open>The deferred attachment fetch\<close>

text \<open>
  C7. For every descriptor of a message and a part: when the id of the message or the
  attachment id of the part's body is missing or empty, the fetch logs an error, makes no
  call and returns without raising, so the drain goes on with the next descriptor; the
  attachment service is called exactly when both ids are non-empty strings, and with them.
\<close>

theorem query_attachment_of_descriptor_guard:
  assumes "d_message d = Some m" and "d_message_part d = Some p"
  shows "query_attachment_of_descriptor env d tr =
           (case (m_id m, b_attachmentId (mp_body p)) of
              (Some (a # as), Some (b # bs)) \<Rightarrow>
                (case get_attachment env USERID_ME (a # as) (b # bs) of
                   Inl e \<Rightarrow> Inl e
                 | Inr r \<Rightarrow> Inr (tr @ [AttachmentGet USERID_ME (a # as) (b # bs)]))
            | _ \<Rightarrow> Inr (tr @ [LogError]))"
  using assms
  by (simp add: query_attachment_of_descriptor_def query_attachment_def truthy_str_def
           split: option.splits list.splits)

theorem query_attachment_of_descriptor_guard_witness:
  "query_attachment_of_descriptor sample_env
     \<lparr>d_message = Some sample_message, d_message_part = Some sample_part,
      d_body = sample_body\<rparr> [] = Inr [LogError]
   \<and> query_attachment_of_descriptor sample_env
     \<lparr>d_message = Some sample_message, d_message_part = Some sample_attachment_part,
      d_body = sample_body\<rparr> [] = Inr [AttachmentGet ''me'' ''m1'' ''att1'']"
proof -
  have "query_attachment_of_descriptor sample_env
     \<lparr>d_message = Some sample_message, d_message_part = Some sample_part,
      d_body = sample_body\<rparr> [] = Inr [LogError]"
    using query_attachment_of_descriptor_guard
          [of "\<lparr>d_message = Some sample_message, d_message_part = Some sample_part,
                d_body = sample_body\<rparr>" sample_message sample_part sample_env "[]"]
    by (simp add: sample_message_def sample_part_def sample_body_def)
  moreover have "query_attachment_of_descriptor sample_env
     \<lparr>d_message = Some sample_message, d_message_part = Some sample_attachment_part,
      d_body = sample_body\<rparr> [] = Inr [AttachmentGet ''me'' ''m1'' ''att1'']"
    using query_attachment_of_descriptor_guard
          [of "\<lparr>d_message = Some sample_message, d_message_part = Some sample_attachment_part,
                d_body = sample_body\<rparr>" sample_message sample_attachment_part sample_env "[]"]
    by (simp add: sample_message_def sample_attachment_part_def sample_env_def USERID_ME_def)
  ultimately show ?thesis by (rule conjI)
qed

section \<open>The part parser\<close>

lemma get_field_None [simp]: "get_field v None = v"
  by (cases v) (simp_all add: get_field_def)

lemma child_parts_simps [simp]: "child_parts None = []" "child_parts (Some ps) = ps"
  by (simp_all add: child_parts_def get_field_def)

lemma collect_map_Inr:
  assumes "\<And>x. x \<in> set xs \<Longrightarrow> \<exists>y. f x = Inr y \<and> Q x y"
  shows "\<exists>ys. collect (map f xs) = Inr ys \<and> list_all2 Q xs ys"
  using assms
proof (induction xs)
  case Nil
  then show ?case by simp
next
  case (Cons x xs)
  from Cons.prems [of x] obtain y where y: "f x = Inr y" "Q x y" by auto
  from Cons.IH Cons.prems obtain ys where ys: "collect (map f xs) = Inr ys" "list_all2 Q xs ys"
    by auto
  show ?case using y ys by simp
qed

lemma collect_map_InrD:
  "collect (map f xs) = Inr ys \<Longrightarrow> list_all2 (\<lambda>x y. f x = Inr y) xs ys"
  by (induction xs arbitrary: ys) (auto split: sum.splits)

lemma serialize_parse_header [simp]: "serialize_header (parse_header h) = h"
  by (simp add: serialize_header_def parse_header_def)

lemma parse_message_part_parsable:
  "parsable_part raw \<Longrightarrow> \<exists>p. parse_message_part raw mid = Inr p"
proof (induction raw mid rule: parse_message_part.induct)
  case (1 part_id mime_type headers_field body_field parts_field message_id)
  from "1.prems" obtain hs b where hb: "headers_field = Some hs" "body_field = Some b"
    by (cases parts_field) auto
  from "1.prems" have ch: "\<And>x. x \<in> set (child_parts parts_field) \<Longrightarrow> parsable_part x"
    by (cases parts_field) (auto simp: list_all_iff)
  have "\<exists>ys. collect (map (\<lambda>part. parse_message_part part message_id) (child_parts parts_field)) = Inr ys
          \<and> list_all2 (\<lambda>x y. True) (child_parts parts_field) ys"
    by (rule collect_map_Inr) (use "1.IH" hb ch in \<open>auto simp: parse_headers_def parse_message_part_body_obj_def\<close>)
  then show ?case using hb
    by (auto simp: parse_headers_def parse_message_part_body_obj_def)
qed

lemma parse_message_part_InrE:
  assumes "parse_message_part (RawPart part_id mime_type headers_field body_field parts_field) mid = Inr p"
  obtains hs b ps rhs rb where
    "headers_field = Some rhs" "hs = map parse_header rhs"
    "body_field = Some rb"
    "b = \<lparr>b_data = rb_data rb, b_size = rb_size rb, b_attachmentId = rb_attachmentId rb\<rparr>"
    "list_all2 (\<lambda>x y. parse_message_part x mid = Inr y) (child_parts parts_field) ps"
    "p = MessagePart part_id mime_type hs b ps"
proof -
  from assms obtain hs b ps where
      hs: "parse_headers headers_field = Inr hs"
    and b: "parse_message_part_body_obj body_field = Inr b"
    and ps: "collect (map (\<lambda>part. parse_message_part part mid) (child_parts parts_field)) = Inr ps"
    and p: "p = MessagePart part_id mime_type hs b ps"
    by (auto split: sum.splits)
  from hs obtain rhs where "headers_field = Some rhs" "hs = map parse_header rhs"
    by (auto simp: parse_headers_def split: option.splits)
  moreover from b obtain rb where "body_field = Some rb"
    "b = \<lparr>b_data = rb_data rb, b_size = rb_size rb, b_attachmentId = rb_attachmentId rb\<rparr>"
    by (auto simp: parse_message_part_body_obj_def split: option.splits)
  moreover note collect_map_InrD [OF ps] p
  ultimately show thesis by (rule that)
qed

lemma raw_shape_child_parts: "raw_shape (RawPart i m hs b ps) = Shape (map raw_shape (child_parts ps))"
  by (cases ps) simp_all

lemma all_raw_parts_child_parts:
  "all_raw_parts (RawPart i m hs b ps) = RawPart i m hs b ps # concat (map all_raw_parts (child_parts ps))"
  by (cases ps) simp_all

lemma list_all2_map_eq: "list_all2 (\<lambda>x y. g y = f x) xs ys \<Longrightarrow> map g ys = map f xs"
  by (induction rule: list_all2_induct) simp_all

lemma parse_message_part_shape:
  "parse_message_part raw mid = Inr p \<Longrightarrow> part_shape p = raw_shape raw"
proof (induction raw mid arbitrary: p rule: parse_message_part.induct)
  case (1 part_id mime_type headers_field body_field parts_field message_id)
  from "1.prems" obtain hs b ps rhs rb where
      hs: "parse_headers headers_field = Inr hs"
    and b: "parse_message_part_body_obj body_field = Inr b"
    and ps: "list_all2 (\<lambda>x y. parse_message_part x message_id = Inr y) (child_parts parts_field) ps"
    and p: "p = MessagePart part_id mime_type hs b ps"
    by (rule parse_message_part_InrE) (simp add: parse_headers_def parse_message_part_body_obj_def)
  from ps have "list_all2 (\<lambda>x y. part_shape y = raw_shape x) (child_parts parts_field) ps"
    by (rule list.rel_mono_strong) (use "1.IH" [OF hs b] in blast)
  then have "map part_shape ps = map raw_shape (child_parts parts_field)"
    by (rule list_all2_map_eq)
  then show ?case by (simp add: p raw_shape_child_parts)
qed

lemma well_formed_part_iff:
  "well_formed_part (RawPart i m hs b ps) \<longleftrightarrow>
     hs \<noteq> None \<and> b \<noteq> None \<and> ps \<noteq> Some [] \<and> (\<forall>x \<in> set (child_parts ps). well_formed_part x)"
  by (cases ps) (auto simp: list_all_iff)

lemma parse_message_part_serialize:
  "well_formed_part raw \<Longrightarrow> parse_message_part raw mid = Inr p \<Longrightarrow> serialize_part p = raw"
proof (induction raw mid arbitrary: p rule: parse_message_part.induct)
  case (1 part_id mime_type headers_field body_field parts_field message_id)
  from "1.prems"(2) obtain hs b ps rhs rb where
      hs: "parse_headers headers_field = Inr hs"
    and hs': "headers_field = Some rhs" "hs = map parse_header rhs"
    and b: "parse_message_part_body_obj body_field = Inr b"
    and b': "body_field = Some rb"
      "b = \<lparr>b_data = rb_data rb, b_size = rb_size rb, b_attachmentId = rb_attachmentId rb\<rparr>"
    and ps: "list_all2 (\<lambda>x y. parse_message_part x message_id = Inr y) (child_parts parts_field) ps"
    and p: "p = MessagePart part_id mime_type hs b ps"
    by (rule parse_message_part_InrE) (simp add: parse_headers_def parse_message_part_body_obj_def)
  from "1.prems"(1) have wf: "parts_field \<noteq> Some []"
      "\<And>x. x \<in> set (child_parts parts_field) \<Longrightarrow> well_formed_part x"
    by (simp_all add: well_formed_part_iff)
  from ps have "list_all2 (\<lambda>x y. serialize_part y = id x) (child_parts parts_field) ps"
    by (rule list.rel_mono_strong) (use "1.IH" [OF hs b] wf in simp)
  then have m: "map serialize_part ps = child_parts parts_field"
    by (drule_tac list_all2_map_eq) simp
  have "(if ps = [] then None else Some (map serialize_part ps)) = parts_field"
    using m wf(1) by (cases parts_field) auto
  moreover have "map serialize_header hs = rhs"
    by (simp add: hs' comp_def)
  moreover have "serialize_body b = rb"
    by (simp add: b' serialize_body_def)
  ultimately show ?case by (simp add: p hs' b')
qed

lemma well_formed_parsable: "well_formed_part raw \<Longrightarrow> parsable_part raw"
  by (induction raw rule: well_formed_part.induct) (auto simp: list_all_iff)

text \<open>
  C4. A well-formed raw part tree parses, the parsed tree has the shape of the raw one (the
  same number of children at every node, hence the same depth), and writing the parsed
  fields back gives the raw tree again: part ids, MIME types, header names and values, body
  data, sizes and attachment ids are all copied as they are.
\<close>

theorem parse_message_part_round_trip:
  assumes "well_formed_part raw"
  shows "\<exists>p. parse_message_part raw message_id = Inr p
           \<and> part_shape p = raw_shape raw
           \<and> shape_depth (part_shape p) = shape_depth (raw_shape raw)
           \<and> serialize_part p = raw"
proof -
  from assms obtain p where p: "parse_message_part raw message_id = Inr p"
    using parse_message_part_parsable well_formed_parsable by blast
  then show ?thesis
    using parse_message_part_shape [OF p] parse_message_part_serialize [OF assms p] by simp
qed

theorem parse_message_part_round_trip_witness:
  "well_formed_part sample_raw_part \<and>
   (\<exists>p. parse_message_part sample_raw_part None = Inr p
        \<and> part_shape p = raw_shape sample_raw_part
        \<and> shape_depth (part_shape p) = shape_depth (raw_shape sample_raw_part)
        \<and> serialize_part p = sample_raw_part)"
proof -
  have wf: "well_formed_part sample_raw_part"
    by (simp add: sample_raw_part_def)
  from parse_message_part_round_trip [OF wf, of None] wf show ?thesis by blast
qed

section \<open>Rounding of floats\<close>

lemma round_half_even_near:
  assumes "\<bar>x - of_int n\<bar> < 1 / 2"
  shows "round_half_even x = n"
proof (cases "of_int n \<le> x")
  case True
  with assms have "\<lfloor>x\<rfloor> = n" by (intro floor_unique) linarith+
  moreover from assms True have "x - of_int n < 1 / 2" by linarith
  ultimately show ?thesis by (simp add: round_half_even_def Let_def)
next
  case False
  from assms False have a: "of_int n - 1 \<le> x" "x < of_int n" by linarith+
  have fl: "\<lfloor>x\<rfloor> = n - 1"
    by (rule floor_unique) (use a in simp_all)
  have "x - of_int (n - 1) = x - of_int n + 1" by simp
  moreover from assms False have "- (1 / 2) < x - of_int n" by linarith
  ultimately have "1 / 2 < x - of_int (n - 1)" by linarith
  then show ?thesis unfolding round_half_even_def Let_def fl by simp
qed

lemma round_half_even_of_int [simp]: "round_half_even (of_int n) = n"
  by (rule round_half_even_near) simp

lemma round_half_even_0 [simp]: "round_half_even 0 = 0"
  using round_half_even_of_int [of 0] by simp

lemma round_half_even_err: "\<bar>of_int (round_half_even x) - x\<bar> \<le> 1 / 2"
proof -
  define d where "d = x - of_int \<lfloor>x\<rfloor>"
  have d: "0 \<le> d" "d < 1" unfolding d_def by linarith+
  have x: "x = of_int \<lfloor>x\<rfloor> + d" by (simp add: d_def)
  consider "d < 1 / 2" | "1 / 2 < d" | "d = 1 / 2" by linarith
  then show ?thesis
  proof cases
    case 1
    then have "round_half_even x = \<lfloor>x\<rfloor>"
      by (simp add: round_half_even_def Let_def d_def)
    then have "of_int (round_half_even x) - x = - d" by (simp add: d_def)
    with 1 d show ?thesis by (simp add: abs_if)
  next
    case 2
    then have "round_half_even x = \<lfloor>x\<rfloor> + 1"
      by (simp add: round_half_even_def Let_def d_def)
    then have "of_int (round_half_even x) - x = 1 - d" by (simp add: d_def)
    with 2 d show ?thesis by (simp add: abs_if)
  next
    case 3
    then have "round_half_even x = \<lfloor>x\<rfloor> \<or> round_half_even x = \<lfloor>x\<rfloor> + 1"
      by (simp add: round_half_even_def Let_def d_def)
    then have "of_int (round_half_even x) - x = - d \<or> of_int (round_half_even x) - x = 1 - d"
      by (auto simp: d_def)
    with 3 show ?thesis by (auto simp: abs_if)
  qed
qed

lemma floor_log2_less:
  assumes "0 < x" and "x < 2 ^ n"
  shows "floor_log2 x < int n"
proof (cases "1 \<le> x")
  case True
  have "of_int \<lfloor>x\<rfloor> \<le> x" by linarith
  with assms(2) have "(of_int \<lfloor>x\<rfloor> :: rat) < 2 ^ n" by linarith
  then have "\<lfloor>x\<rfloor> < 2 ^ n"
    by (metis of_int_less_numeral_power_cancel_iff)
  then have "bitlen \<lfloor>x\<rfloor> \<le> int n"
    by (simp add: bitlen_le_iff_power)
  with True show ?thesis by (simp add: floor_log2_def)
next
  case False
  with assms(1) have "1 < 1 / x" by (simp add: field_simps)
  then have "2 \<le> \<lceil>1 / x\<rceil>" by linarith
  then have "0 < \<lceil>1 / x\<rceil> - 1" by simp
  then have "bitlen (\<lceil>1 / x\<rceil> - 1) \<noteq> 0"
    by (simp add: bitlen_eq_zero_iff)
  with bitlen_nonneg [of "\<lceil>1 / x\<rceil> - 1"] have "0 < bitlen (\<lceil>1 / x\<rceil> - 1)" by linarith
  with False show ?thesis by (simp add: floor_log2_def)
qed

lemma double_of_err:
  assumes "x \<noteq> 0" and "\<bar>x\<bar> < 2 ^ n"
  shows "\<bar>double_of x - x\<bar> \<le> 2 powi (int n - 53) / 2"
proof -
  define p where "p = max (floor_log2 \<bar>x\<bar> - 52) (- 1074)"
  define s :: rat where "s = 2 powi p"
  have s: "0 < s" by (simp add: s_def)
  from assms have "floor_log2 \<bar>x\<bar> < int n" by (intro floor_log2_less) simp_all
  then have "p \<le> int n - 53" by (simp add: p_def)
  then have le: "s \<le> 2 powi (int n - 53)"
    unfolding s_def by (intro power_int_increasing) simp_all
  have d: "double_of x = of_int (round_half_even (x / s)) * s"
    using assms(1) by (simp add: double_of_def Let_def p_def s_def)
  have "double_of x - x = (of_int (round_half_even (x / s)) - x / s) * s"
    using s by (simp add: d field_simps)
  then have "\<bar>double_of x - x\<bar> = \<bar>of_int (round_half_even (x / s)) - x / s\<bar> * s"
    using s by (simp add: abs_mult)
  also have "\<dots> \<le> (1 / 2) * s"
    using s round_half_even_err [of "x / s"] by (intro mult_right_mono) simp_all
  also have "\<dots> \<le> 2 powi (int n - 53) / 2" using le by simp
  finally show ?thesis .
qed

lemma double_of_of_int:
  assumes "\<bar>q\<bar> < 2 ^ 53"
  shows "double_of (of_int q) = of_int q"
proof (cases "q = 0")
  case True
  then show ?thesis by (simp add: double_of_def)
next
  case False
  define p where "p = max (floor_log2 \<bar>of_int q\<bar> - 52) (- 1074)"
  have "\<bar>(of_int q :: rat)\<bar> < 2 ^ 53"
    using assms by (metis of_int_abs of_int_less_numeral_power_cancel_iff)
  with False have "floor_log2 \<bar>of_int q\<bar> < int 53" by (intro floor_log2_less) simp_all
  then have p: "p \<le> 0" by (simp add: p_def)
  have pw: "(2::rat) powi p = 1 / 2 ^ nat (- p)"
    using p by (simp add: power_int_def field_simps power_inverse)
  have "of_int q / (2::rat) powi p = of_int (q * 2 ^ nat (- p))"
    by (simp add: pw)
  then have "round_half_even (of_int q / 2 powi p) = q * 2 ^ nat (- p)"
    by (simp only: round_half_even_of_int)
  then have "of_int (round_half_even (of_int q / 2 powi p)) * (2::rat) powi p = of_int q"
    by (simp add: pw)
  with False show ?thesis by (simp add: double_of_def Let_def p_def)
qed


lemma split_timestamp_millis:
  assumes "0 \<le> m" and "m < 8589934592000"
  shows "split_timestamp (double_of (of_int m / 1000)) = (m div 1000, (m mod 1000) * 1000)"
proof -
  define q where "q = m div 1000"
  define k where "k = m mod 1000"
  have k: "0 \<le> k" "k < 1000" by (simp_all add: k_def)
  have m: "m = 1000 * q + k" by (simp add: q_def k_def)
  from assms have q: "0 \<le> q" "q < 8589934592" by (simp_all add: q_def)
  define x :: rat where "x = of_int m / 1000"
  have x: "x = of_int q + of_int k / 1000" by (simp add: x_def m)
  show ?thesis
  proof (cases "k = 0")
    case True
    with x have "x = of_int q" by simp
    moreover have "double_of (of_int q) = of_int q"
      by (rule double_of_of_int) (use q in simp)
    ultimately have d: "double_of x = of_int q" by simp
    have "split_timestamp (of_int q) = (q, 0)"
      using q by (simp add: split_timestamp_def Let_def double_of_def)
    with d True show ?thesis by (simp add: x_def q_def k_def)
  next
    case False
    with k have k1: "1 \<le> k" "k \<le> 999" by simp_all
    then have kr: "1 / 1000 \<le> (of_int k :: rat) / 1000" "(of_int k :: rat) / 1000 \<le> 999 / 1000"
      by simp_all
    from q have qr: "0 \<le> (of_int q :: rat)" "(of_int q :: rat) \<le> 8589934591" by simp_all
    define d where "d = double_of x"
    have x0: "x \<noteq> 0" and xb: "\<bar>x\<bar> < 2 ^ 33"
      using kr qr by (simp_all add: x abs_if)
    have "\<bar>d - x\<bar> \<le> 2 powi (int 33 - 53) / 2"
      unfolding d_def by (rule double_of_err [OF x0 xb])
    also have "(2::rat) powi (int 33 - 53) / 2 = 1 / 2097152"
      by (simp add: power_int_def power_divide)
    finally have e1: "\<bar>d - x\<bar> \<le> 1 / 2097152" .
    then have e1': "d - x \<le> 1 / 2097152" "- (1 / 2097152) \<le> d - x"
      by linarith+
    have dq: "of_int q \<le> d" "d < of_int q + 1"
      using e1' kr x by linarith+
    then have fl: "\<lfloor>d\<rfloor> = q" by (intro floor_unique)
    from dq qr have d0: "0 \<le> d" by linarith
    define t where "t = (d - of_int q) * 1000000"
    have te: "t - of_int (1000 * k) = 1000000 * d - 1000000 * x"
      by (simp add: t_def x algebra_simps)
    have e2': "t - of_int (1000 * k) \<le> 15625 / 32768"
        "- (15625 / 32768) \<le> t - of_int (1000 * k)"
      using e1' te by linarith+
    from k1 have kk: "1000 \<le> (of_int (1000 * k) :: rat)" "(of_int (1000 * k) :: rat) \<le> 999000"
      by simp_all
    have t0: "t \<noteq> 0" using e2' kk by linarith
    have "- (2 ^ 20) < t" "t < 2 ^ 20" using e2' kk by simp_all
    then have tb: "\<bar>t\<bar> < 2 ^ 20" by linarith
    have "\<bar>double_of t - t\<bar> \<le> 2 powi (int 20 - 53) / 2"
      by (rule double_of_err [OF t0 tb])
    also have "(2::rat) powi (int 20 - 53) / 2 = 1 / 17179869184"
      by (simp add: power_int_def power_divide)
    finally have e3: "\<bar>double_of t - t\<bar> \<le> 1 / 17179869184" .
    from e3 have e3': "double_of t - t \<le> 1 / 17179869184"
        "- (1 / 17179869184) \<le> double_of t - t"
      by linarith+
    have "double_of t - of_int (1000 * k) < 1 / 2" "- (1 / 2) < double_of t - of_int (1000 * k)"
      using e2' e3' by linarith+
    then have "\<bar>double_of t - of_int (1000 * k)\<bar> < 1 / 2"
      by linarith
    then have r: "round_half_even (double_of t) = 1000 * k"
      by (rule round_half_even_near)
    have ip: "(if 0 \<le> d then \<lfloor>d\<rfloor> else \<lceil>d\<rceil>) = q"
      using d0 fl by simp
    have "split_timestamp d = (q, 1000 * k)"
      unfolding split_timestamp_def Let_def ip t_def [symmetric] r
      using k by simp
    then show ?thesis by (simp add: d_def x_def q_def k_def mult.commute)
  qed
qed

lemma py_truediv_millis:
  assumes "0 \<le> m" and "m < 8589934592000"
  shows "py_truediv m 1000 = Inr (double_of (of_int m / 1000))"
proof -
  define x :: rat where "x = of_int m / 1000"
  have xb: "0 \<le> x" "x < 8589934592" using assms by (simp_all add: x_def)
  have "\<bar>double_of x\<bar> < 17179869184"
  proof (cases "x = 0")
    case True
    then show ?thesis by (simp add: double_of_def)
  next
    case False
    from xb have "\<bar>x\<bar> < 2 ^ 33" by simp
    from double_of_err [OF False this]
    have "\<bar>double_of x - x\<bar> \<le> 2 powi (int 33 - 53) / 2" .
    also have "(2::rat) powi (int 33 - 53) / 2 = 1 / 2097152"
      by (simp add: power_int_def power_divide)
    finally have "\<bar>double_of x - x\<bar> \<le> 1 / 2097152" .
    then have "double_of x - x \<le> 1 / 2097152" "- (1 / 2097152) \<le> double_of x - x"
      by linarith+
    with xb show ?thesis by linarith
  qed
  then have "\<bar>double_of x\<bar> < 2 ^ 34" by simp
  also have "(2::rat) ^ 34 \<le> 2 ^ 1024" by (rule power_increasing) simp_all
  finally have "\<not> (2::rat) ^ 1024 \<le> \<bar>double_of x\<bar>" by (simp only: not_le)
  then show ?thesis unfolding py_truediv_def Let_def x_def by simp
qed

lemma message_date_exact:
  assumes "0 \<le> m" and "m < 8589934592000"
  shows "message_date env m =
           (case localtime env (m div 1000) of
              Inl e \<Rightarrow> Inl e
            | Inr l \<Rightarrow> Inr \<lparr>dt_local_seconds = l, dt_microsecond = (m mod 1000) * 1000\<rparr>)"
  by (simp add: message_date_def fromtimestamp_def py_truediv_millis [OF assms]
        split_timestamp_millis [OF assms])

text \<open>
  Evaluation takes the short way wherever the conversion is exact, and the float elsewhere.
\<close>

lemma message_date_code [code]:
  "message_date env m =
     (if 0 \<le> m \<and> m < 8589934592000 then
        (case localtime env (m div 1000) of
           Inl e \<Rightarrow> Inl e
         | Inr l \<Rightarrow> Inr \<lparr>dt_local_seconds = l, dt_microsecond = (m mod 1000) * 1000\<rparr>)
      else
        (case py_truediv m 1000 of
           Inl e \<Rightarrow> Inl e
         | Inr seconds \<Rightarrow> fromtimestamp env seconds))"
  by (simp add: message_date_exact) (simp add: message_date_def)

section \<open>Messages and their anomalies\<close>

lemma report_part_fields:
  "empty_bodies (report_part env c p) =
     empty_bodies c @ (if has_empty_body p then [descriptor_of (current_message c) p] else [])"
  "decode_errors (report_part env c p) =
     decode_errors c @ (if has_undecodable_body env p then [descriptor_of (current_message c) p] else [])"
  "current_message (report_part env c p) = current_message c"
  "progress (report_part env c p) = progress c"
  by (auto simp: report_part_def Let_def report_empty_body_def report_decode_error_def
        register_current_message_part_def descriptor_of_def has_empty_body_def
        has_undecodable_body_def)

lemma report_parts_fields:
  "empty_bodies (report_parts env c ps) =
     empty_bodies c @ map (descriptor_of (current_message c)) (filter has_empty_body ps)"
  "decode_errors (report_parts env c ps) =
     decode_errors c @ map (descriptor_of (current_message c)) (filter (has_undecodable_body env) ps)"
  "current_message (report_parts env c ps) = current_message c"
  "progress (report_parts env c ps) = progress c"
  by (induction ps arbitrary: c) (simp_all add: report_part_fields)

lemma list_all2_concat_map:
  "list_all2 (\<lambda>x y. list_all2 R (f x) (g y)) xs ys
     \<Longrightarrow> list_all2 R (concat (map f xs)) (concat (map g ys))"
  by (induction rule: list_all2_induct) (simp_all add: list_all2_appendI)

lemma list_all2_filter_length:
  "list_all2 R xs ys \<Longrightarrow> (\<And>x y. R x y \<Longrightarrow> P x = Q y)
     \<Longrightarrow> length (filter P xs) = length (filter Q ys)"
  by (induction rule: list_all2_induct) auto

lemma parse_message_part_bodies:
  "parse_message_part raw mid = Inr p \<Longrightarrow>
     list_all2 (\<lambda>r q. rp_body r = Some (serialize_body (mp_body q))) (all_raw_parts raw) (all_parts p)"
proof (induction raw mid arbitrary: p rule: parse_message_part.induct)
  case (1 part_id mime_type headers_field body_field parts_field message_id)
  from "1.prems" obtain hs b ps rhs rb where
      hs: "parse_headers headers_field = Inr hs"
    and b: "parse_message_part_body_obj body_field = Inr b"
    and b': "body_field = Some rb"
      "b = \<lparr>b_data = rb_data rb, b_size = rb_size rb, b_attachmentId = rb_attachmentId rb\<rparr>"
    and ps: "list_all2 (\<lambda>x y. parse_message_part x message_id = Inr y) (child_parts parts_field) ps"
    and p: "p = MessagePart part_id mime_type hs b ps"
    by (rule parse_message_part_InrE) (simp add: parse_headers_def parse_message_part_body_obj_def)
  from ps have "list_all2 (\<lambda>x y. list_all2 (\<lambda>r q. rp_body r = Some (serialize_body (mp_body q)))
                   (all_raw_parts x) (all_parts y)) (child_parts parts_field) ps"
    by (rule list.rel_mono_strong) (use "1.IH" [OF hs b] in blast)
  then have "list_all2 (\<lambda>r q. rp_body r = Some (serialize_body (mp_body q)))
               (concat (map all_raw_parts (child_parts parts_field))) (concat (map all_parts ps))"
    by (rule list_all2_concat_map)
  then show ?case
    by (simp add: p all_raw_parts_child_parts b' serialize_body_def)
qed

lemma parse_message_part_empty_count:
  assumes "parse_message_part raw mid = Inr p"
  shows "length (filter has_empty_body (all_parts p)) = length (filter raw_has_empty_body (all_raw_parts raw))"
  by (rule sym, rule list_all2_filter_length [OF parse_message_part_bodies [OF assms]])
     (auto simp: raw_has_empty_body_def has_empty_body_def serialize_body_def)

text \<open>
  C3. For every raw message whose part tree can be parsed, whose internal date is a numeral
  and whose time stamp converts, building the message succeeds whatever bodies are empty,
  and the empty-bodies buffer grows by exactly one descriptor for each part of the tree whose
  body has neither inline data nor an attachment id, in the order of the tree; there are as
  many of them as raw part records with such a body.
\<close>

theorem empty_body_reported_once:
  assumes "rm_payload message = Some rp" and "parsable_part rp"
    and "py_int (rm_internalDate message) = Inr millis"
    and "message_date env millis = Inr date"
  shows "\<exists>msg c'. parse_api_message env c message = Inr (msg, c')
           \<and> empty_bodies c' =
               empty_bodies c @
               map (descriptor_of (Some msg)) (filter has_empty_body (all_parts (m_payload msg)))
           \<and> length (filter has_empty_body (all_parts (m_payload msg))) =
               length (filter raw_has_empty_body (all_raw_parts rp))"
proof -
  from assms(2) obtain p where p: "parse_message_part rp (rm_id message) = Inr p"
    using parse_message_part_parsable by blast
  show ?thesis
    using assms(1,3,4) p parse_message_part_empty_count [OF p]
    by (simp add: parse_api_message_def Message_init_def Let_def report_parts_fields
          register_current_message_def)
qed

theorem empty_body_reported_once_witness:
  "\<exists>msg c'. parse_api_message sample_env sample_ctx sample_raw_message = Inr (msg, c')
      \<and> empty_bodies c' = empty_bodies sample_ctx @
               map (descriptor_of (Some msg)) (filter has_empty_body (all_parts (m_payload msg)))
      \<and> length (filter has_empty_body (all_parts (m_payload msg))) = 1"
proof -
  have a: "rm_payload sample_raw_message = Some sample_raw_part"
    by (simp add: sample_raw_message_def)
  have b: "parsable_part sample_raw_part"
    by (simp add: sample_raw_part_def)
  have c: "py_int (rm_internalDate sample_raw_message) = Inr 1600000000500"
    by (simp add: sample_raw_message_def py_int_def py_int_of_string_def py_strip_def
          is_py_space_def py_numeral_def is_digit_def digit_val_def)
  have d: "length (filter raw_has_empty_body (all_raw_parts sample_raw_part)) = 1"
    by (simp add: sample_raw_part_def raw_has_empty_body_def)
  have e: "message_date sample_env 1600000000500
             = Inr \<lparr>dt_local_seconds = 1600000000, dt_microsecond = 500000\<rparr>"
    by (simp add: message_date_exact sample_env_def)
  from empty_body_reported_once [OF a b c e, of sample_ctx] d show ?thesis by simp
qed

text \<open>
  C6. For every raw message whose payload parses and whose internal date reads as the
  integer \<open>millis\<close>: \<open>parse_api_message\<close> divides \<open>millis\<close> by \<open>1000\<close> in true division and hands
  the float to \<^verbatim>\<open>fromtimestamp\<close>; it raises what either of the two raises, and otherwise
  builds the message with that time stamp, the message id, the thread id, the snippet and
  the parsed root part. For a non-negative \<open>millis\<close> below \<open>2 ^ 33\<close> seconds the float loses
  nothing: the time stamp is the local time of second \<open>millis div 1000\<close> with
  \<open>(millis mod 1000) * 1000\<close> microseconds, that is, \<open>millis / 1000\<close> seconds exactly.
\<close>

theorem parse_api_message_timestamp:
  assumes "rm_payload message = Some rp"
    and "parse_message_part rp (rm_id message) = Inr part"
    and "rm_internalDate message = Some s" and "py_int_of_string s = Some millis"
  shows "map_sum id fst (parse_api_message env c message) =
           (case py_truediv millis 1000 of
              Inl e \<Rightarrow> Inl e
            | Inr seconds \<Rightarrow>
                (case fromtimestamp env seconds of
                   Inl e \<Rightarrow> Inl e
                 | Inr date \<Rightarrow>
                     Inr \<lparr>m_id = rm_id message, m_threadId = rm_threadId message,
                          m_date = date, m_snippet = rm_snippet message,
                          m_payload = part, m_subject = subject_of env part\<rparr>))
       \<and> (0 \<le> millis \<and> millis < 8589934592000 \<longrightarrow>
            map_sum id fst (parse_api_message env c message) =
              (case localtime env (millis div 1000) of
                 Inl e \<Rightarrow> Inl e
               | Inr l \<Rightarrow>
                   Inr \<lparr>m_id = rm_id message, m_threadId = rm_threadId message,
                        m_date = \<lparr>dt_local_seconds = l,
                                  dt_microsecond = (millis mod 1000) * 1000\<rparr>,
                        m_snippet = rm_snippet message,
                        m_payload = part, m_subject = subject_of env part\<rparr>))"
proof -
  have p: "map_sum id fst (parse_api_message env c message) =
             (case message_date env millis of
                Inl e \<Rightarrow> Inl e
              | Inr date \<Rightarrow>
                  Inr \<lparr>m_id = rm_id message, m_threadId = rm_threadId message,
                       m_date = date, m_snippet = rm_snippet message,
                       m_payload = part, m_subject = subject_of env part\<rparr>)"
    using assms
    by (cases "message_date env millis")
       (simp_all add: parse_api_message_def Message_init_def Let_def py_int_def)
  have 1: "map_sum id fst (parse_api_message env c message) =
           (case py_truediv millis 1000 of
              Inl e \<Rightarrow> Inl e
            | Inr seconds \<Rightarrow>
                (case fromtimestamp env seconds of
                   Inl e \<Rightarrow> Inl e
                 | Inr date \<Rightarrow>
                     Inr \<lparr>m_id = rm_id message, m_threadId = rm_threadId message,
                          m_date = date, m_snippet = rm_snippet message,
                          m_payload = part, m_subject = subject_of env part\<rparr>))"
    unfolding p message_date_def by (cases "py_truediv millis 1000") simp_all
  have 2: "map_sum id fst (parse_api_message env c message) =
              (case localtime env (millis div 1000) of
                 Inl e \<Rightarrow> Inl e
               | Inr l \<Rightarrow>
                   Inr \<lparr>m_id = rm_id message, m_threadId = rm_threadId message,
                        m_date = \<lparr>dt_local_seconds = l,
                                  dt_microsecond = (millis mod 1000) * 1000\<rparr>,
                        m_snippet = rm_snippet message,
                        m_payload = part, m_subject = subject_of env part\<rparr>)"
    if "0 \<le> millis \<and> millis < 8589934592000"
    unfolding p using that
    by (cases "localtime env (millis div 1000)") (simp_all add: message_date_exact)
  from 1 2 show ?thesis by (intro conjI impI)
qed

theorem parse_api_message_timestamp_witness:
  "map_sum id fst (parse_api_message sample_env sample_ctx sample_raw_message) =
     Inr \<lparr>m_id = Some ''m1'', m_threadId = Some ''t1'',
          m_date = \<lparr>dt_local_seconds = 1600000000, dt_microsecond = 500000\<rparr>,
          m_snippet = Some ''hi'', m_payload = sample_parsed_part,
          m_subject = Some ''hello''\<rparr>"
proof -
  have a: "rm_payload sample_raw_message = Some sample_raw_part"
    by (simp add: sample_raw_message_def)
  have b: "parse_message_part sample_raw_part (rm_id sample_raw_message) = Inr sample_parsed_part"
    by (simp add: sample_raw_part_def sample_parsed_part_def parse_headers_def
          parse_header_def parse_message_part_body_obj_def)
  have c: "rm_internalDate sample_raw_message = Some ''1600000000500''"
    by (simp add: sample_raw_message_def)
  have d: "py_int_of_string ''1600000000500'' = Some 1600000000500"
    by (simp add: py_int_of_string_def py_strip_def is_py_space_def py_numeral_def
          is_digit_def digit_val_def)
  have e: "localtime sample_env (1600000000500 div 1000) = Inr 1600000000"
    by (simp add: sample_env_def)
  have f: "subject_of sample_env sample_parsed_part = Some ''hello''"
    by (simp add: sample_env_def)
  have r: "(0::int) \<le> 1600000000500 \<and> (1600000000500::int) < 8589934592000" by simp
  from parse_api_message_timestamp [OF a b c d, of sample_env sample_ctx]
  have "map_sum id fst (parse_api_message sample_env sample_ctx sample_raw_message) =
          (case localtime sample_env (1600000000500 div 1000) of
             Inl e \<Rightarrow> Inl e
           | Inr l \<Rightarrow>
               Inr \<lparr>m_id = rm_id sample_raw_message, m_threadId = rm_threadId sample_raw_message,
                    m_date = \<lparr>dt_local_seconds = l,
                              dt_microsecond = (1600000000500 mod 1000) * 1000\<rparr>,
                    m_snippet = rm_snippet sample_raw_message,
                    m_payload = sample_parsed_part,
                    m_subject = subject_of sample_env sample_parsed_part\<rparr>)"
    using r by blast
  then show ?thesis unfolding e f by (simp add: sample_raw_message_def)
qed

text \<open>
  Beyond that range the float shows: a date in the year 3000 comes out one microsecond off,
  and a date past the year 9999 makes the platform of the samples raise.
\<close>

lemma message_date_rounds:
  "message_date sample_env 32503680000123
     = Inr \<lparr>dt_local_seconds = 32503680000, dt_microsecond = 123001\<rparr>"
  by code_simp

lemma message_date_raises: "message_date sample_env 253402300800000 = Inl ValueError"
  by code_simp

section \<open>The orchestrator\<close>

lemma fetched_ids_append: "fetched_ids (xs @ ys) = fetched_ids xs @ fetched_ids ys"
  by (induction xs rule: fetched_ids.induct) simp_all

lemma parse_api_message_frame:
  assumes "parse_api_message env c raw = Inr (m, c')"
  shows "progress c' = progress c"
    and "decode_errors c' = decode_errors c @ message_decode_errors env m"
    and "empty_bodies c' = empty_bodies c @ map (descriptor_of (Some m)) (filter has_empty_body (all_parts (m_payload m)))"
  using assms
  by (auto simp: parse_api_message_def Message_init_def Let_def report_parts_fields
        register_current_message_def message_decode_errors_def
      split: option.splits sum.splits)

lemma parse_api_messages_frame:
  "parse_api_messages env c raws = Inr (ms, c') \<Longrightarrow>
     progress c' = progress c \<and> length ms = length raws \<and>
     decode_errors c' = decode_errors c @ concat (map (message_decode_errors env) ms)"
proof (induction raws arbitrary: c ms)
  case Nil
  then show ?case by simp
next
  case (Cons raw raws)
  from Cons.prems obtain m c1 ms' where
      m: "parse_api_message env c raw = Inr (m, c1)"
    and ms': "parse_api_messages env c1 raws = Inr (ms', c')" and ms: "ms = m # ms'"
    by (auto split: sum.splits)
  from Cons.IH [OF ms'] parse_api_message_frame(1,2) [OF m] show ?case
    by (simp add: ms)
qed

lemma query_attachment_of_descriptor_events:
  "query_attachment_of_descriptor env d tr = Inr tr' \<Longrightarrow>
     \<exists>evs. tr' = tr @ evs \<and> fetched_ids evs = [] \<and> LogWarning \<notin> set evs \<and> ListExecute \<notin> set evs"
  by (auto simp: query_attachment_of_descriptor_def query_attachment_def Let_def
      split: option.splits if_splits sum.splits)

lemma for_each_descriptor_events:
  "for_each_descriptor (query_attachment_of_descriptor env) ds tr = Inr tr' \<Longrightarrow>
     \<exists>evs. tr' = tr @ evs \<and> fetched_ids evs = [] \<and> LogWarning \<notin> set evs \<and> ListExecute \<notin> set evs"
proof (induction ds arbitrary: tr)
  case Nil
  then show ?case by simp
next
  case (Cons d ds)
  from Cons.prems obtain tr1 where
      d: "query_attachment_of_descriptor env d tr = Inr tr1"
    and ds: "for_each_descriptor (query_attachment_of_descriptor env) ds tr1 = Inr tr'"
    by (auto split: sum.splits)
  from query_attachment_of_descriptor_events [OF d] obtain e1 where
    e1: "tr1 = tr @ e1" "fetched_ids e1 = []" "LogWarning \<notin> set e1" "ListExecute \<notin> set e1"
    by blast
  from Cons.IH [OF ds] obtain e2 where
    e2: "tr' = tr1 @ e2" "fetched_ids e2 = []" "LogWarning \<notin> set e2" "ListExecute \<notin> set e2"
    by blast
  have "tr' = tr @ (e1 @ e2)" using e1 e2 by simp
  moreover have "fetched_ids (e1 @ e2) = []" using e1 e2 by (simp add: fetched_ids_append)
  moreover have "LogWarning \<notin> set (e1 @ e2)" "ListExecute \<notin> set (e1 @ e2)" using e1 e2 by simp_all
  ultimately show ?case by blast
qed

lemma fetch_thread_Inr:
  assumes "fetch_thread env sc st tid = Inr st'"
  shows "\<exists>resp raws ms c1 evs.
           get_thread env USERID_ME tid = Inr resp \<and> rt_messages resp = Some raws \<and>
           parse_api_messages env (ctx st) raws = Inr (ms, c1) \<and> ms \<noteq> [] \<and>
           ctx st' = c1\<lparr>empty_bodies := []\<rparr> \<and>
           threads st' = threads st @ [\<lparr>t_id = tid, t_subject = m_subject (hd ms), t_messages = ms\<rparr>] \<and>
           trace st' = trace st @ ThreadGet USERID_ME tid # evs \<and>
           fetched_ids evs = [] \<and> LogWarning \<notin> set evs \<and> ListExecute \<notin> set evs"
proof -
  from assms obtain resp raws ms c1 c2 tr2 where
      g: "get_thread env USERID_ME tid = Inr resp" and r: "rt_messages resp = Some raws"
    and p: "parse_api_messages env (ctx st) raws = Inr (ms, c1)"
    and h: "handle_empty_bodies (query_attachment_of_descriptor env) c1
              (trace st @ [ThreadGet USERID_ME tid]) = Inr (c2, tr2)"
    and ne: "ms \<noteq> []"
    and st': "st' = st\<lparr>ctx := c2,
                 threads := threads st @ [\<lparr>t_id = tid, t_subject = m_subject (hd ms), t_messages = ms\<rparr>],
                 api_fetching_ctx := process_thread env (api_fetching_ctx st) resp
                    \<lparr>t_id = tid, t_subject = m_subject (hd ms), t_messages = ms\<rparr>,
                 trace := tr2\<rparr>"
    by (auto simp: fetch_thread_def query_thread_data_def Let_def
        split: sum.splits option.splits list.splits prod.splits)
  from h obtain c2: "c2 = c1\<lparr>empty_bodies := []\<rparr>"
    and f: "for_each_descriptor (query_attachment_of_descriptor env) (empty_bodies c1)
              (trace st @ [ThreadGet USERID_ME tid]) = Inr tr2"
    by (auto simp: handle_empty_bodies_def split: sum.splits)
  from for_each_descriptor_events [OF f] obtain evs where
    "tr2 = (trace st @ [ThreadGet USERID_ME tid]) @ evs" "fetched_ids evs = []"
    "LogWarning \<notin> set evs" "ListExecute \<notin> set evs"
    by blast
  then show ?thesis using g r p ne c2 st' by auto
qed

lemma is_limit_reached_cong:
  "limit p = limit q \<Longrightarrow> processed_items p = processed_items q
     \<Longrightarrow> is_limit_reached p = is_limit_reached q"
  by (cases "limit q") (simp_all add: is_limit_reached_def)

lemma advanced_refl: "advanced env st False st [] []"
  by (simp add: advanced_def)

lemma advanced_trans:
  assumes "advanced env st False st1 ths1 evs1" and "advanced env st1 returned st2 ths2 evs2"
  shows "advanced env st returned st2 (ths1 @ ths2) (evs1 @ evs2)"
proof -
  let ?p = "progress (ctx st)" and ?p1 = "progress (ctx st1)"
  have lim: "limit ?p1 = limit ?p"
    and proc: "processed_items ?p1 = processed_items ?p + int (length ths1)"
    using assms(1) by (simp_all add: advanced_def)
  have nr: "\<not> is_limit_reached ?p1" if "\<not> is_limit_reached ?p"
  proof -
    from that assms(1)
    have "\<not> is_limit_reached (?p\<lparr>processed_items := processed_items ?p + int (length ths1)\<rparr>)"
      by (simp add: advanced_def)
    moreover have "is_limit_reached ?p1 =
        is_limit_reached (?p\<lparr>processed_items := processed_items ?p + int (length ths1)\<rparr>)"
      by (rule is_limit_reached_cong) (simp_all add: lim proc)
    ultimately show ?thesis by simp
  qed
  have last: "\<not> is_limit_reached (?p\<lparr>processed_items := processed_items ?p + int (length (ths1 @ ths2))\<rparr>)"
    if "\<not> is_limit_reached ?p"
  proof -
    from nr [OF that] assms(2)
    have "\<not> is_limit_reached (?p1\<lparr>processed_items := processed_items ?p1 + int (length ths2)\<rparr>)"
      by (simp add: advanced_def)
    moreover have "is_limit_reached (?p\<lparr>processed_items := processed_items ?p + int (length (ths1 @ ths2))\<rparr>)
       = is_limit_reached (?p1\<lparr>processed_items := processed_items ?p1 + int (length ths2)\<rparr>)"
      by (rule is_limit_reached_cong) (simp_all add: lim proc)
    ultimately show ?thesis by simp
  qed
  from assms have "threads st2 = threads st @ (ths1 @ ths2)"
    and "limit (progress (ctx st2)) = limit ?p"
    and "processed_items (progress (ctx st2)) =
           processed_items ?p + int (length (ths1 @ ths2)) + (if returned then 1 else 0)"
    and "decode_errors (ctx st2) =
           decode_errors (ctx st) @ concat (map (thread_decode_errors env) (ths1 @ ths2))"
    and "trace st2 = trace st @ (evs1 @ evs2)"
    and "fetched_ids (evs1 @ evs2) = map t_id (ths1 @ ths2)"
    and "(LogWarning \<in> set (evs1 @ evs2)) = returned"
    and "returned \<longrightarrow> is_limit_reached (progress (ctx st2))"
    by (simp_all add: advanced_def fetched_ids_append)
  with last show ?thesis
    unfolding advanced_def by blast
qed

lemma fetch_step_advanced:
  assumes nr: "\<not> is_limit_reached (incr_processed_items (progress (ctx st)))"
    and f: "fetch_thread env sc
              (st\<lparr>ctx := (ctx st)\<lparr>progress := incr_processed_items (progress (ctx st))\<rparr>\<rparr>) tid = Inr st'"
  shows "\<exists>th evs. advanced env st False st' [th] evs \<and> t_id th = tid \<and> t_messages th \<noteq> []
           \<and> t_subject th = m_subject (hd (t_messages th))"
proof -
  let ?st1 = "st\<lparr>ctx := (ctx st)\<lparr>progress := incr_processed_items (progress (ctx st))\<rparr>\<rparr>"
  from fetch_thread_Inr [OF f] obtain resp raws ms c1 evs where
      p: "parse_api_messages env (ctx ?st1) raws = Inr (ms, c1)" and ne: "ms \<noteq> []"
    and c: "ctx st' = c1\<lparr>empty_bodies := []\<rparr>"
    and t: "threads st' = threads ?st1 @ [\<lparr>t_id = tid, t_subject = m_subject (hd ms), t_messages = ms\<rparr>]"
    and tr: "trace st' = trace ?st1 @ ThreadGet USERID_ME tid # evs"
    and ev: "fetched_ids evs = []" "LogWarning \<notin> set evs"
    by blast
  let ?th = "\<lparr>t_id = tid, t_subject = m_subject (hd ms), t_messages = ms\<rparr>"
  from parse_api_messages_frame [OF p]
  have pr: "progress c1 = incr_processed_items (progress (ctx st))"
    and de: "decode_errors c1 = decode_errors (ctx st) @ concat (map (message_decode_errors env) ms)"
    by simp_all
  from nr have nr': "\<not> is_limit_reached
      ((progress (ctx st))\<lparr>processed_items := processed_items (progress (ctx st)) + 1\<rparr>)"
    by (simp add: incr_processed_items_def)
  have "advanced env st False st' [?th] (ThreadGet USERID_ME tid # evs)"
    unfolding advanced_def
  proof (intro conjI impI)
    show "threads st' = threads st @ [?th]" using t by simp
    show "limit (progress (ctx st')) = limit (progress (ctx st))"
      by (simp add: c pr incr_processed_items_def)
    show "processed_items (progress (ctx st')) =
            processed_items (progress (ctx st)) + int (length [?th]) + (if False then 1 else 0)"
      by (simp add: c pr incr_processed_items_def)
    show "decode_errors (ctx st') =
            decode_errors (ctx st) @ concat (map (thread_decode_errors env) [?th])"
      by (simp add: c de thread_decode_errors_def)
    show "trace st' = trace st @ ThreadGet USERID_ME tid # evs" using tr by simp
    show "fetched_ids (ThreadGet USERID_ME tid # evs) = map t_id [?th]" using ev by simp
    show "(LogWarning \<in> set (ThreadGet USERID_ME tid # evs)) = False" using ev by simp
    show "is_limit_reached (progress (ctx st'))" if False using that by simp
    show "\<not> is_limit_reached ((progress (ctx st))
             \<lparr>processed_items := processed_items (progress (ctx st)) + int (length [?th])\<rparr>)"
      using nr' by simp
  qed
  moreover have "t_id ?th = tid" "t_messages ?th \<noteq> []"
    "t_subject ?th = m_subject (hd (t_messages ?th))" using ne by simp_all
  ultimately show ?thesis by (intro exI conjI)
qed

lemma process_thread_ids_advanced:
  "process_thread_ids env sc st ids = Inr (returned, st') \<Longrightarrow>
     \<exists>ths evs. advanced env st returned st' ths evs
        \<and> map t_id ths = take (length ths) ids
        \<and> (returned \<longleftrightarrow> length ths < length ids)
        \<and> list_executes evs = 0"
proof (induction ids arbitrary: st)
  case Nil
  then show ?case using advanced_refl [of env st] by (auto simp: list_executes_def)
next
  case (Cons tid ids)
  let ?st1 = "st\<lparr>ctx := (ctx st)\<lparr>progress := incr_processed_items (progress (ctx st))\<rparr>\<rparr>"
  show ?case
  proof (cases "is_limit_reached (incr_processed_items (progress (ctx st)))")
    case True
    with Cons.prems have r: "returned" and s: "st' = ?st1\<lparr>trace := trace ?st1 @ [LogWarning]\<rparr>"
      by (simp_all add: Let_def)
    have "advanced env st True st' [] [LogWarning]"
      using True by (simp add: advanced_def s incr_processed_items_def)
    with r have "advanced env st returned st' [] [LogWarning]
        \<and> map t_id [] = take (length ([] :: Thread list)) (tid # ids)
        \<and> (returned \<longleftrightarrow> length ([] :: Thread list) < length (tid # ids))
        \<and> list_executes [LogWarning] = 0"
      by (simp add: list_executes_def)
    then show ?thesis by (rule_tac x = "[]" in exI, rule_tac x = "[LogWarning]" in exI)
  next
    case False
    with Cons.prems obtain st2 where
        f: "fetch_thread env sc ?st1 tid = Inr st2"
      and rest: "process_thread_ids env sc st2 ids = Inr (returned, st')"
      by (auto simp: Let_def split: sum.splits)
    from fetch_step_advanced [OF False f] obtain th e1 where
      a1: "advanced env st False st2 [th] e1" and th: "t_id th = tid" by blast
    have le1: "list_executes e1 = 0"
    proof -
      from fetch_thread_Inr [OF f] obtain evs where
        "trace st2 = trace ?st1 @ ThreadGet USERID_ME tid # evs" "ListExecute \<notin> set evs" by blast
      moreover from a1 have "trace st2 = trace st @ e1" by (simp add: advanced_def)
      ultimately have "e1 = ThreadGet USERID_ME tid # evs" "ListExecute \<notin> set evs" by simp_all
      moreover from \<open>ListExecute \<notin> set evs\<close> have "filter (\<lambda>e. e = ListExecute) evs = []"
        by (induction evs) auto
      ultimately show ?thesis by (simp add: list_executes_def)
    qed
    from Cons.IH [OF rest] obtain ths e2 where
      a2: "advanced env st2 returned st' ths e2" and ids: "map t_id ths = take (length ths) ids"
      and r: "returned \<longleftrightarrow> length ths < length ids" and le2: "list_executes e2 = 0"
      by blast
    have 1: "advanced env st returned st' ([th] @ ths) (e1 @ e2)"
      by (rule advanced_trans [OF a1 a2])
    have 2: "map t_id ([th] @ ths) = take (length ([th] @ ths)) (tid # ids)"
      using th ids by simp
    have 3: "returned \<longleftrightarrow> length ([th] @ ths) < length (tid # ids)" using r by simp
    have 4: "list_executes (e1 @ e2) = 0" using le1 le2 by (simp add: list_executes_def)
    show ?thesis
      by (rule exI [of _ "[th] @ ths"], rule exI [of _ "e1 @ e2"]) (intro conjI 1 2 3 4)
  qed
qed

lemma advanced_silent:
  assumes "threads st1 = threads st"
    and "limit (progress (ctx st1)) = limit (progress (ctx st))"
    and "processed_items (progress (ctx st1)) = processed_items (progress (ctx st))"
    and "decode_errors (ctx st1) = decode_errors (ctx st)"
    and "trace st1 = trace st @ evs" and "fetched_ids evs = []" and "LogWarning \<notin> set evs"
  shows "advanced env st False st1 [] evs"
  unfolding advanced_def
proof (intro conjI impI)
  assume "\<not> is_limit_reached (progress (ctx st))"
  moreover have "is_limit_reached ((progress (ctx st))
        \<lparr>processed_items := processed_items (progress (ctx st)) + int (length ([] :: Thread list))\<rparr>)
      = is_limit_reached (progress (ctx st))"
    by (rule is_limit_reached_cong) simp_all
  ultimately show "\<not> is_limit_reached ((progress (ctx st))
        \<lparr>processed_items := processed_items (progress (ctx st)) + int (length ([] :: Thread list))\<rparr>)"
    by simp
qed (use assms in simp_all)

lemma paging_loop_advanced:
  "paging_loop env sc eo st pages = Inr (returned, st') \<Longrightarrow>
     \<exists>ths evs. advanced env st returned st' ths evs
        \<and> (\<not> returned \<longrightarrow> list_executes evs = length pages)"
proof (induction pages arbitrary: st)
  case Nil
  then have "st' = st" "\<not> returned" by simp_all
  then have "advanced env st returned st' [] [] \<and> (\<not> returned \<longrightarrow> list_executes [] = length ([] :: (error + response) list))"
    using advanced_refl [of env st] by (simp add: list_executes_def)
  then show ?case by (rule_tac x = "[]" in exI, rule_tac x = "[]" in exI)
next
  case (Cons page pages)
  from Cons.prems obtain response where page: "page = Inr response"
    by (cases page) simp_all
  let ?st0 = "st\<lparr>trace := trace st @ [ListExecute]\<rparr>"
  show ?case
  proof (cases "response_truthy response")
    case False
    with Cons.prems page have rest: "paging_loop env sc eo ?st0 pages = Inr (returned, st')"
      by (simp add: Let_def)
    have a0: "advanced env st False ?st0 [] [ListExecute]"
      by (rule advanced_silent) simp_all
    from Cons.IH [OF rest] obtain ths e2 where
      a2: "advanced env ?st0 returned st' ths e2"
      and le: "\<not> returned \<longrightarrow> list_executes e2 = length pages" by blast
    have 1: "advanced env st returned st' ([] @ ths) ([ListExecute] @ e2)"
      by (rule advanced_trans [OF a0 a2])
    have 2: "\<not> returned \<longrightarrow> list_executes ([ListExecute] @ e2) = length (page # pages)"
      using le by (simp add: list_executes_def)
    show ?thesis
      by (rule exI [of _ "[] @ ths"], rule exI [of _ "[ListExecute] @ e2"]) (intro conjI 1 2)
  next
    case True
    let ?p2 = "register_new_items (incr_requests (progress (ctx ?st0)))
                 (int (length (list_of_threads response)))"
    let ?st1 = "?st0\<lparr>ctx := (ctx ?st0)\<lparr>progress := ?p2\<rparr>\<rparr>"
    let ?ids = "ids_to_query env (api_fetching_ctx ?st1) (thread_ids response) eo"
    from Cons.prems page True obtain r st2 where
        ids: "process_thread_ids env sc ?st1 ?ids = Inr (r, st2)"
      and cont: "if r then returned \<and> st' = st2
                 else paging_loop env sc eo st2 pages = Inr (returned, st')"
      by (auto simp: Let_def split: sum.splits prod.splits if_splits)
    have a0: "advanced env st False ?st1 [] [ListExecute]"
      by (rule advanced_silent) (simp_all add: register_new_items_def incr_requests_def)
    from process_thread_ids_advanced [OF ids] obtain ths1 e1 where
      a1: "advanced env ?st1 r st2 ths1 e1" and le1: "list_executes e1 = 0" by blast
    show ?thesis
    proof (cases r)
      case True
      with cont have rs: "returned" "st' = st2" by simp_all
      have 1: "advanced env st returned st' ([] @ ths1) ([ListExecute] @ e1)"
        using advanced_trans [OF a0 a1] True rs by simp
      have 2: "\<not> returned \<longrightarrow> list_executes ([ListExecute] @ e1) = length (page # pages)"
        using rs by simp
      show ?thesis
        by (rule exI [of _ "[] @ ths1"], rule exI [of _ "[ListExecute] @ e1"]) (intro conjI 1 2)
    next
      case False
      with cont have rest: "paging_loop env sc eo st2 pages = Inr (returned, st')" by simp
      from Cons.IH [OF rest] obtain ths2 e2 where
        a2: "advanced env st2 returned st' ths2 e2"
        and le: "\<not> returned \<longrightarrow> list_executes e2 = length pages" by blast
      from a1 False have a1': "advanced env ?st1 False st2 ths1 e1" by simp
      have a01: "advanced env st False st2 ([] @ ths1) ([ListExecute] @ e1)"
        by (rule advanced_trans [OF a0 a1'])
      have 1: "advanced env st returned st' (([] @ ths1) @ ths2) (([ListExecute] @ e1) @ e2)"
        by (rule advanced_trans [OF a01 a2])
      have 2: "\<not> returned \<longrightarrow> list_executes (([ListExecute] @ e1) @ e2) = length (page # pages)"
        using le le1 by (simp add: list_executes_def)
      show ?thesis
        by (rule exI [of _ "([] @ ths1) @ ths2"], rule exI [of _ "([ListExecute] @ e1) @ e2"])
           (intro conjI 1 2)
    qed
  qed
qed

lemma query_threads_with_paging_Inr:
  assumes "query_threads_with_paging env query lmt sc eo fetching first_page next_pages = Inr (ths, st)"
  obtains returned st1 where
    "paging_loop env sc eo (initial_session query lmt fetching) (first_page # next_pages)
       = Inr (returned, st1)"
    "ths = threads st1"
    "st = (if returned then st1 else st1\<lparr>ctx := handle_encoding_errors (ctx st1)\<rparr>)"
proof -
  from assms obtain returned st1 where
    1: "paging_loop env sc eo (initial_session query lmt fetching) (first_page # next_pages)
       = Inr (returned, st1)"
    unfolding query_threads_with_paging_def initial_session_def Let_def
    by (auto split: sum.splits)
  with assms have "ths = threads st1"
    "st = (if returned then st1 else st1\<lparr>ctx := handle_encoding_errors (ctx st1)\<rparr>)"
    unfolding query_threads_with_paging_def initial_session_def Let_def
    by (auto split: if_splits)
  with 1 show thesis by (rule that)
qed

lemma session_summary:
  assumes "query_threads_with_paging env query lmt sc eo fetching first_page next_pages = Inr (ths, st)"
  shows "\<exists>returned evs.
           threads st = ths
         \<and> limit (progress (ctx st)) = lmt
         \<and> processed_items (progress (ctx st)) = int (length ths) + (if returned then 1 else 0)
         \<and> decode_errors (ctx st) =
             (if returned then concat (map (thread_decode_errors env) ths) else [])
         \<and> trace st = ListCall (list_request_kwargs query lmt) # evs
         \<and> fetched_ids evs = map t_id ths
         \<and> (LogWarning \<in> set evs) = returned
         \<and> (returned \<longrightarrow> is_limit_reached (progress (ctx st)))
         \<and> (\<not> is_limit_reached (Progress_init THREAD lmt) \<longrightarrow>
               \<not> is_limit_reached ((progress (ctx st))\<lparr>processed_items := int (length ths)\<rparr>))
         \<and> (\<not> returned \<longrightarrow> list_executes evs = Suc (length next_pages))"
proof -
  let ?st0 = "initial_session query lmt fetching"
  from assms obtain returned st1 where
      loop: "paging_loop env sc eo ?st0 (first_page # next_pages) = Inr (returned, st1)"
    and ths: "ths = threads st1"
    and st: "st = (if returned then st1 else st1\<lparr>ctx := handle_encoding_errors (ctx st1)\<rparr>)"
    by (rule query_threads_with_paging_Inr)
  from paging_loop_advanced [OF loop] obtain ths' evs where
      a: "advanced env ?st0 returned st1 ths' evs"
    and le: "\<not> returned \<longrightarrow> list_executes evs = length (first_page # next_pages)"
    by blast
  have init: "threads ?st0 = []" "progress (ctx ?st0) = Progress_init THREAD lmt"
    "decode_errors (ctx ?st0) = []" "trace ?st0 = [ListCall (list_request_kwargs query lmt)]"
    by (simp_all add: initial_session_def ApiConversionContext_init_def)
  have pi: "limit (Progress_init THREAD lmt) = lmt" "processed_items (Progress_init THREAD lmt) = 0"
    by (simp_all add: Progress_init_def)
  from a have t1: "threads st1 = ths'" by (simp add: advanced_def init)
  with ths have eq: "ths' = ths" by simp
  from a have l1: "limit (progress (ctx st1)) = lmt" by (simp add: advanced_def init pi)
  from a have p1: "processed_items (progress (ctx st1)) = int (length ths) + (if returned then 1 else 0)"
    by (simp add: advanced_def init pi eq)
  from a have d1: "decode_errors (ctx st1) = concat (map (thread_decode_errors env) ths)"
    by (simp add: advanced_def init eq)
  from a have tr1: "trace st1 = ListCall (list_request_kwargs query lmt) # evs"
    by (simp add: advanced_def init)
  from a have f1: "fetched_ids evs = map t_id ths" by (simp add: advanced_def eq)
  from a have w1: "(LogWarning \<in> set evs) = returned" by (simp add: advanced_def)
  from a have r1: "returned \<longrightarrow> is_limit_reached (progress (ctx st1))" by (simp add: advanced_def)
  from a have n1: "\<not> is_limit_reached (Progress_init THREAD lmt) \<longrightarrow>
      \<not> is_limit_reached ((Progress_init THREAD lmt)\<lparr>processed_items := 0 + int (length ths)\<rparr>)"
    by (simp add: advanced_def init pi eq)
  have pst: "progress (ctx st) = progress (ctx st1)"
    by (simp add: st handle_encoding_errors_def)
  have n2: "is_limit_reached ((progress (ctx st))\<lparr>processed_items := int (length ths)\<rparr>)
      = is_limit_reached ((Progress_init THREAD lmt)\<lparr>processed_items := 0 + int (length ths)\<rparr>)"
    by (rule is_limit_reached_cong) (simp_all add: pst l1 pi)
  have 1: "threads st = ths" by (simp add: st t1 eq)
  have 2: "limit (progress (ctx st)) = lmt" by (simp add: pst l1)
  have 3: "processed_items (progress (ctx st)) = int (length ths) + (if returned then 1 else 0)"
    by (simp only: pst p1)
  have 4: "decode_errors (ctx st) =
             (if returned then concat (map (thread_decode_errors env) ths) else [])"
    by (simp add: st d1 handle_encoding_errors_def)
  have 5: "trace st = ListCall (list_request_kwargs query lmt) # evs" by (simp add: st tr1)
  have 8: "returned \<longrightarrow> is_limit_reached (progress (ctx st))" using r1 by (simp only: pst)
  have 9: "\<not> is_limit_reached (Progress_init THREAD lmt) \<longrightarrow>
               \<not> is_limit_reached ((progress (ctx st))\<lparr>processed_items := int (length ths)\<rparr>)"
    using n1 by (simp only: n2)
  have 10: "\<not> returned \<longrightarrow> list_executes evs = Suc (length next_pages)" using le by simp
  show ?thesis
    by (rule exI [of _ returned], rule exI [of _ evs]) (intro conjI 1 2 3 4 5 f1 w1 8 9 10)
qed

text \<open>
  C9. A session that returns through the limit check (it is the one that logs the warning)
  skips the final \<open>handle_encoding_errors\<close>: its buffer still holds the decode errors of all
  the threads it retained. A session that ends with the last page returns with the buffer
  cleared.
\<close>

theorem limit_return_keeps_decode_errors:
  assumes "query_threads_with_paging env query lmt sc eo fetching first_page next_pages = Inr (ths, st)"
  shows "decode_errors (ctx st) =
           (if LogWarning \<in> set (trace st) then concat (map (thread_decode_errors env) ths) else [])"
proof -
  from session_summary [OF assms] obtain returned evs where
      d: "decode_errors (ctx st) =
             (if returned then concat (map (thread_decode_errors env) ths) else [])"
    and tr: "trace st = ListCall (list_request_kwargs query lmt) # evs"
    and w: "(LogWarning \<in> set evs) = returned"
    by blast
  have "(LogWarning \<in> set (trace st)) = returned" by (simp add: tr w)
  with d show ?thesis by simp
qed

lemma process_thread_ids_all:
  assumes "process_thread_ids env sc st ids = Inr (False, st')"
  shows "map t_id (threads st') = map t_id (threads st) @ ids"
proof -
  from process_thread_ids_advanced [OF assms] obtain ths evs where
      a: "advanced env st False st' ths evs" and m: "map t_id ths = take (length ths) ids"
    and r: "False \<longleftrightarrow> length ths < length ids"
    by blast
  have "length ths = length (map t_id ths)" by simp
  also have "\<dots> = min (length ths) (length ids)" by (simp only: m length_take)
  finally have "length ths \<le> length ids" by simp
  with r have "length ths = length ids" by simp
  with m have "map t_id ths = ids" by simp
  moreover from a have "threads st' = threads st @ ths" by (simp add: advanced_def)
  ultimately show ?thesis by simp
qed

lemma thread_ids_falsy: "\<not> response_truthy r \<Longrightarrow> thread_ids r = []"
  by (cases r) (simp_all add: response_truthy_def thread_ids_def list_of_threads_def)

lemma paging_loop_all:
  assumes accept: "\<And>s ids b. ids_to_query env s ids b = ids"
  shows "paging_loop env sc eo st (map Inr rs) = Inr (False, st') \<Longrightarrow>
           map t_id (threads st') = map t_id (threads st) @ concat (map thread_ids rs)"
proof (induction rs arbitrary: st)
  case Nil
  then show ?case by simp
next
  case (Cons r rs)
  let ?st0 = "st\<lparr>trace := trace st @ [ListExecute]\<rparr>"
  show ?case
  proof (cases "response_truthy r")
    case False
    with Cons.prems have rest: "paging_loop env sc eo ?st0 (map Inr rs) = Inr (False, st')"
      by (simp add: Let_def)
    from Cons.IH [OF rest] thread_ids_falsy [OF False] show ?thesis by simp
  next
    case True
    let ?p2 = "register_new_items (incr_requests (progress (ctx ?st0)))
                 (int (length (list_of_threads r)))"
    let ?st1 = "?st0\<lparr>ctx := (ctx ?st0)\<lparr>progress := ?p2\<rparr>\<rparr>"
    from Cons.prems True obtain st2 where
        ids: "process_thread_ids env sc ?st1 (thread_ids r) = Inr (False, st2)"
      and rest: "paging_loop env sc eo st2 (map Inr rs) = Inr (False, st')"
      by (auto simp: Let_def accept split: sum.splits prod.splits if_splits)
    from process_thread_ids_all [OF ids]
    have "map t_id (threads st2) = map t_id (threads st) @ thread_ids r" by simp
    with Cons.IH [OF rest] show ?thesis by simp
  qed
qed

lemma list_executes_Cons_ListCall: "list_executes (ListCall kw # evs) = list_executes evs"
  by (simp add: list_executes_def)

text \<open>
  C5. The paging loop is a recursion on the sequence of pages, so it ends on every finite
  sequence. With a fetching context that asks for every candidate id, and the limit not
  reached when the session returns, every list request has been executed once, the loop
  having ended after the last one, and the ids of all pages have been fetched and retained
  once each, in the order of the pages.
\<close>

theorem paging_visits_every_item_once:
  assumes "\<And>s ids b. ids_to_query env s ids b = ids"
    and "query_threads_with_paging env query lmt sc eo fetching (Inr r) (map Inr rs) = Inr (ths, st)"
    and "\<not> is_limit_reached (progress (ctx st))"
  shows "map t_id ths = concat (map thread_ids (r # rs))
       \<and> fetched_ids (trace st) = concat (map thread_ids (r # rs))
       \<and> list_executes (trace st) = length (r # rs)
       \<and> processed_items (progress (ctx st)) = int (length (concat (map thread_ids (r # rs))))"
proof -
  from session_summary [OF assms(2)] obtain returned evs where
      proc: "processed_items (progress (ctx st)) = int (length ths) + (if returned then 1 else 0)"
    and tr: "trace st = ListCall (list_request_kwargs query lmt) # evs"
    and f: "fetched_ids evs = map t_id ths"
    and ret: "returned \<longrightarrow> is_limit_reached (progress (ctx st))"
    and le: "\<not> returned \<longrightarrow> list_executes evs = Suc (length (map Inr rs :: (error + response) list))"
    by blast
  from ret assms(3) have nr: "\<not> returned" by blast
  from assms(2) obtain returned' st1 where
      loop: "paging_loop env sc eo (initial_session query lmt fetching) (Inr r # map Inr rs)
               = Inr (returned', st1)"
    and ths: "ths = threads st1"
    and st: "st = (if returned' then st1 else st1\<lparr>ctx := handle_encoding_errors (ctx st1)\<rparr>)"
    by (rule query_threads_with_paging_Inr)
  from paging_loop_advanced [OF loop] have "returned' \<longrightarrow> is_limit_reached (progress (ctx st1))"
    by (auto simp: advanced_def)
  moreover have "progress (ctx st) = progress (ctx st1)"
    by (simp add: st handle_encoding_errors_def)
  ultimately have "\<not> returned'" using assms(3) by auto
  with loop have "paging_loop env sc eo (initial_session query lmt fetching) (map Inr (r # rs))
               = Inr (False, st1)" by simp
  from paging_loop_all [OF assms(1) this]
  have ids: "map t_id ths = concat (map thread_ids (r # rs))"
    by (simp add: ths initial_session_def)
  have 2: "fetched_ids (trace st) = concat (map thread_ids (r # rs))"
    using ids by (simp add: tr f)
  have 3: "list_executes (trace st) = length (r # rs)"
    using le nr by (simp add: tr list_executes_Cons_ListCall)
  have "length ths = length (map t_id ths)" by simp
  then have "length ths = length (concat (map thread_ids (r # rs)))"
    by (simp only: ids)
  with proc nr have 4: "processed_items (progress (ctx st)) = int (length (concat (map thread_ids (r # rs))))"
    by simp
  from ids 2 3 4 show ?thesis by (intro conjI)
qed

lemma paging_loop_truthy:
  assumes "paging_loop env sc eo st (Inr r # pages) = Inr (returned, st')"
    and "response_truthy r"
  obtains ret st2 where
    "process_thread_ids env sc (page_state st r)
       (ids_to_query env (api_fetching_ctx st) (thread_ids r) eo) = Inr (ret, st2)"
    "if ret then returned \<and> st' = st2
     else paging_loop env sc eo st2 pages = Inr (returned, st')"
  using assms
  by (auto simp: Let_def page_state_def split: sum.splits prod.splits if_splits)

text \<open>
  C2, amended. With limit \<open>2\<close> and a first page of three thread summaries that the fetching
  context asks for in full, a session that returns has fetched and retained exactly the
  first two threads, and its counter of processed items is \<open>3\<close>: the third candidate has
  been counted before the limit check stopped the session.
\<close>

theorem limit_two_of_three:
  assumes "ids_to_query env fetching [ts_id s1, ts_id s2, ts_id s3] eo = [ts_id s1, ts_id s2, ts_id s3]"
    and "query_threads_with_paging env query (Some 2) sc eo fetching
           (Inr (Response (Some [s1, s2, s3]))) next_pages = Inr (ths, st)"
  shows "length ths = 2 \<and> map t_id ths = [ts_id s1, ts_id s2]
       \<and> processed_items (progress (ctx st)) = 3
       \<and> fetched_ids (trace st) = [ts_id s1, ts_id s2]"
proof -
  let ?r = "Response (Some [s1, s2, s3])"
  let ?ids = "[ts_id s1, ts_id s2, ts_id s3]"
  let ?i = "initial_session query (Some 2) fetching"
  let ?st1 = "page_state ?i ?r"
  have tids: "thread_ids ?r = ?ids"
    by (simp add: thread_ids_def list_of_threads_def get_field_def split: option.splits)
  have truthy: "response_truthy ?r" by (simp add: response_truthy_def)
  have fc: "api_fetching_ctx ?i = fetching" by (simp add: initial_session_def)
  from assms(2) obtain returned st1 where
      loop: "paging_loop env sc eo ?i (Inr ?r # next_pages) = Inr (returned, st1)"
    and ths: "ths = threads st1"
    and st: "st = (if returned then st1 else st1\<lparr>ctx := handle_encoding_errors (ctx st1)\<rparr>)"
    by (rule query_threads_with_paging_Inr)
  from loop truthy obtain r st2 where
      ids0: "process_thread_ids env sc ?st1
               (ids_to_query env (api_fetching_ctx ?i) (thread_ids ?r) eo) = Inr (r, st2)"
    and cont: "if r then returned \<and> st1 = st2
               else paging_loop env sc eo st2 next_pages = Inr (returned, st1)"
    by (rule paging_loop_truthy)
  from ids0 have ids: "process_thread_ids env sc ?st1 ?ids = Inr (r, st2)"
    by (simp only: tids fc assms(1))
  from process_thread_ids_advanced [OF ids] obtain ths1 e1 where
      a: "advanced env ?st1 r st2 ths1 e1" and m: "map t_id ths1 = take (length ths1) ?ids"
    and rr: "r \<longleftrightarrow> length ths1 < length ?ids"
    by blast
  have l1: "limit (progress (ctx ?st1)) = Some 2" "processed_items (progress (ctx ?st1)) = 0"
    "threads ?st1 = []" "trace ?st1 = [ListCall (list_request_kwargs query (Some 2)), ListExecute]"
    by (simp_all add: page_state_def initial_session_def ApiConversionContext_init_def
          Progress_init_def register_new_items_def incr_requests_def)
  have nr0: "\<not> is_limit_reached (progress (ctx ?st1))"
    by (simp add: is_limit_reached_def l1)
  from a nr0 have "\<not> is_limit_reached ((progress (ctx ?st1))
       \<lparr>processed_items := processed_items (progress (ctx ?st1)) + int (length ths1)\<rparr>)"
    unfolding advanced_def by blast
  then have le: "length ths1 \<le> 2"
    by (simp add: is_limit_reached_def truthy_int_def l1)
  with rr have r: r by simp
  from a have p2: "processed_items (progress (ctx st2)) = int (length ths1) + (if r then 1 else 0)"
    and lim2: "limit (progress (ctx st2)) = Some 2"
    and t2: "threads st2 = ths1"
    and tr2: "trace st2 = [ListCall (list_request_kwargs query (Some 2)), ListExecute] @ e1"
    and f2: "fetched_ids e1 = map t_id ths1"
    and reached: "r \<longrightarrow> is_limit_reached (progress (ctx st2))"
    by (simp_all add: advanced_def l1)
  from reached r p2 lim2 have "2 < int (length ths1) + 1"
    by (simp add: is_limit_reached_def truthy_int_def)
  with le have len: "length ths1 = 2" by simp
  from cont r have eq: "returned" "st1 = st2" by simp_all
  have 1: "length ths = 2" by (simp add: ths eq t2 len)
  have 2: "map t_id ths = [ts_id s1, ts_id s2]" using m by (simp add: ths eq t2 len)
  have 3: "processed_items (progress (ctx st)) = 3" using p2 r by (simp add: st eq len)
  have 4: "fetched_ids (trace st) = [ts_id s1, ts_id s2]"
    using m by (simp add: st eq tr2 f2 len)
  from 1 2 3 4 show ?thesis by (intro conjI)
qed

text \<open>
  C10. The thread is built from \<open>messages[0]\<close> with no check. Once the thread detail has been
  fetched, its messages parsed and the empty bodies drained: if the detail has no message the
  indexing raises \<open>IndexError\<close>; otherwise the thread is added with the subject of its first
  message.
\<close>

theorem thread_subject_from_first_message:
  assumes "get_thread env USERID_ME tid = Inr resp" and "rt_messages resp = Some raws"
    and "parse_api_messages env (ctx st) raws = Inr (ms, c1)"
    and "handle_empty_bodies (query_attachment_of_descriptor env) c1
           (trace st @ [ThreadGet USERID_ME tid]) = Inr (c2, tr2)"
  shows "(raws = [] \<longrightarrow> fetch_thread env sc st tid = Inl IndexError)
       \<and> (raws \<noteq> [] \<longrightarrow>
            ms \<noteq> [] \<and>
            (\<exists>st'. fetch_thread env sc st tid = Inr st' \<and>
               threads st' = threads st @
                 [\<lparr>t_id = tid, t_subject = m_subject (hd ms), t_messages = ms\<rparr>]))"
proof -
  from parse_api_messages_frame [OF assms(3)] have len: "length ms = length raws" by simp
  show ?thesis
  proof (cases ms)
    case Nil
    with len have "raws = []" by simp
    moreover have "fetch_thread env sc st tid = Inl IndexError"
      using assms Nil by (simp add: fetch_thread_def query_thread_data_def)
    ultimately show ?thesis by simp
  next
    case (Cons m ms')
    with len have "raws \<noteq> []" by auto
    moreover have "\<exists>st'. fetch_thread env sc st tid = Inr st' \<and>
               threads st' = threads st @
                 [\<lparr>t_id = tid, t_subject = m_subject (hd ms), t_messages = ms\<rparr>]"
      using assms Cons by (simp add: fetch_thread_def query_thread_data_def Let_def)
    ultimately show ?thesis using Cons by simp
  qed
qed












section \<open>Concrete sessions\<close>



theorem limit_two_of_three_counterexample:
  "session_counts (query_threads_with_paging sample_thread_env None (Some 2) True False ()
     (Inr sample_page) []) = Some (2, 3)
   \<and> session_counts (query_threads_with_paging sample_thread_env None (Some 2) True False ()
     (Inr sample_page) []) \<noteq> Some (2, 2)"
proof -
  have "session_counts (query_threads_with_paging sample_thread_env None (Some 2) True False ()
     (Inr sample_page) []) = Some (2, 3)"
    by code_simp
  then show ?thesis by simp
qed

theorem limit_two_of_three_witness:
  "\<exists>ths st. query_threads_with_paging sample_thread_env None (Some 2) True False ()
               (Inr (Response (Some [\<lparr>ts_id = Some ''a''\<rparr>, \<lparr>ts_id = Some ''b''\<rparr>,
                                      \<lparr>ts_id = Some ''c''\<rparr>]))) [] = Inr (ths, st)
      \<and> length ths = 2 \<and> map t_id ths = [Some ''a'', Some ''b'']
      \<and> processed_items (progress (ctx st)) = 3
      \<and> fetched_ids (trace st) = [Some ''a'', Some ''b'']"
proof -
  let ?q = "query_threads_with_paging sample_thread_env None (Some 2) True False ()
               (Inr (Response (Some [\<lparr>ts_id = Some ''a''\<rparr>, \<lparr>ts_id = Some ''b''\<rparr>,
                                      \<lparr>ts_id = Some ''c''\<rparr>]))) []"
  have "succeeded ?q" by code_simp
  then obtain ths st where eq: "?q = Inr (ths, st)"
    by (cases ?q) (auto simp: succeeded_def)
  have h: "ids_to_query sample_thread_env ()
             [ts_id \<lparr>ts_id = Some ''a''\<rparr>, ts_id \<lparr>ts_id = Some ''b''\<rparr>, ts_id \<lparr>ts_id = Some ''c''\<rparr>]
             False
           = [ts_id \<lparr>ts_id = Some ''a''\<rparr>, ts_id \<lparr>ts_id = Some ''b''\<rparr>, ts_id \<lparr>ts_id = Some ''c''\<rparr>]"
    by (simp add: sample_thread_env_def)
  from limit_two_of_three [OF h eq] eq show ?thesis by simp
qed

theorem paging_visits_every_item_once_witness:
  "\<exists>ths st. query_threads_with_paging sample_thread_env None None True False ()
               (Inr sample_page) (map Inr [Response None, sample_page, EmptyResponse])
             = Inr (ths, st)
      \<and> map t_id ths = [Some ''a'', Some ''b'', Some ''c'', Some ''a'', Some ''b'', Some ''c'']
      \<and> fetched_ids (trace st) =
          [Some ''a'', Some ''b'', Some ''c'', Some ''a'', Some ''b'', Some ''c'']
      \<and> list_executes (trace st) = 4
      \<and> processed_items (progress (ctx st)) = 6"
proof -
  let ?q = "query_threads_with_paging sample_thread_env None None True False ()
               (Inr sample_page) (map Inr [Response None, sample_page, EmptyResponse])"
  have "succeeded ?q" by code_simp
  then obtain ths st where eq: "?q = Inr (ths, st)"
    by (cases ?q) (auto simp: succeeded_def)
  have acc: "\<And>s ids b. ids_to_query sample_thread_env s ids b = ids"
    by (simp add: sample_thread_env_def)
  from session_summary [OF eq] have "limit (progress (ctx st)) = None" by blast
  then have nr: "\<not> is_limit_reached (progress (ctx st))"
    by (simp add: is_limit_reached_def truthy_int_def)
  have ids: "thread_ids sample_page = [Some ''a'', Some ''b'', Some ''c'']"
      "thread_ids (Response None) = []" "thread_ids EmptyResponse = []"
    by (simp_all add: thread_ids_def list_of_threads_def sample_page_def get_field_def)
  from paging_visits_every_item_once [OF acc eq nr] eq show ?thesis
    by (simp add: ids)
qed

theorem limit_return_keeps_decode_errors_witness:
  "\<exists>ths st. query_threads_with_paging sample_thread_env None (Some 1) True False ()
               (Inr sample_page) [] = Inr (ths, st)
      \<and> LogWarning \<in> set (trace st)
      \<and> length (decode_errors (ctx st)) = 1
      \<and> decode_errors (ctx st) = concat (map (thread_decode_errors sample_thread_env) ths)"
proof -
  let ?q = "query_threads_with_paging sample_thread_env None (Some 1) True False ()
              (Inr sample_page) []"
  have "succeeded ?q" by code_simp
  then obtain ths st where eq: "?q = Inr (ths, st)"
    by (cases ?q) (auto simp: succeeded_def)
  have "session_warned ?q = Some (True, 1)" by code_simp
  with eq have w: "LogWarning \<in> set (trace st)" "length (decode_errors (ctx st)) = 1"
    by (simp_all add: session_warned_def)
  from limit_return_keeps_decode_errors [OF eq] w eq show ?thesis by simp
qed

theorem thread_subject_from_first_message_witness:
  "fetch_thread sample_empty_env True (initial_session None None ()) (Some ''a'') = Inl IndexError"
proof -
  let ?st = "initial_session None None ()"
  let ?resp = "\<lparr>rt_id = Some ''a'', rt_messages = Some []\<rparr>"
  have a: "get_thread sample_empty_env USERID_ME (Some ''a'') = Inr ?resp"
    by (simp add: sample_empty_env_def)
  have b: "rt_messages ?resp = Some []" by simp
  have c: "parse_api_messages sample_empty_env (ctx ?st) [] = Inr ([], ctx ?st)" by simp
  have d: "handle_empty_bodies (query_attachment_of_descriptor sample_empty_env) (ctx ?st)
             (trace ?st @ [ThreadGet USERID_ME (Some ''a'')])
           = Inr ((ctx ?st)\<lparr>empty_bodies := []\<rparr>, trace ?st @ [ThreadGet USERID_ME (Some ''a'')])"
    by (simp add: handle_empty_bodies_def initial_session_def ApiConversionContext_init_def)
  from thread_subject_from_first_message [OF a b c d, of True] show ?thesis by simp
qed

end
